theory Spec2Isabelle
  imports Complex_Main
begin

section \<open>Numbers of the source\<close>

text \<open>
  The simulator is JavaScript; its numbers are IEEE 754 doubles.  A \<open>jsnum\<close> is a double:
  \<open>Num x\<close> is the finite double of value \<open>x\<close> (\<open>Num 0\<close> is \<open>+0\<close>), \<open>NegZero\<close> is \<open>-0\<close>, and
  \<open>PInf\<close>, \<open>NInf\<close>, \<open>NaN\<close> are \<open>Infinity\<close>, \<open>-Infinity\<close> and \<open>NaN\<close>.  Every state setter stores
  the result of \<open>Number\<close>, which can be any of these.
\<close>

datatype jsnum = Num real | NegZero | PInf | NInf | NaN

text \<open>The value of a finite double, its sign bit, and the zero of a given sign.\<close>

fun val :: "jsnum \<Rightarrow> real" where
  "val (Num x) = x"
| "val NegZero = 0"
| "val PInf = 0"
| "val NInf = 0"
| "val NaN = 0"

fun negative :: "jsnum \<Rightarrow> bool" where
  "negative (Num x) = (x < 0)"
| "negative NegZero = True"
| "negative PInf = False"
| "negative NInf = True"
| "negative NaN = False"

fun isFinite :: "jsnum \<Rightarrow> bool" where
  "isFinite (Num x) = True"
| "isFinite NegZero = True"
| "isFinite PInf = False"
| "isFinite NInf = False"
| "isFinite NaN = False"

definition zero :: "bool \<Rightarrow> jsnum" where
  "zero s = (if s then NegZero else Num 0)"

definition infinity :: "bool \<Rightarrow> jsnum" where
  "infinity s = (if s then NInf else PInf)"

subsection \<open>Rounding to the nearest double\<close>

text \<open>
  Every arithmetic operation returns the double nearest to the exact result, the one with
  the even significand on a tie.  \<open>rne q\<close> is the integer nearest to \<open>q\<close>, the even one on a
  tie.  A double of binary exponent \<open>e\<close> (at least \<open>-1022\<close>, the exponent shared by the
  subnormal numbers) is a multiple of \<open>2^(e - 52)\<close>; \<open>rndv x\<close> rounds \<open>x\<close> to such a multiple
  and \<open>rnd x\<close> is the double returned: an infinity when the rounded magnitude reaches
  \<open>2^1024\<close>, a zero with the sign of \<open>x\<close> when it vanishes.
\<close>

definition rne :: "real \<Rightarrow> int" where
  "rne q = (let n = \<lfloor>q\<rfloor> in
              if q - of_int n < 1 / 2 then n
              else if 1 / 2 < q - of_int n then n + 1
              else if even n then n else n + 1)"

definition pow2 :: "int \<Rightarrow> real" where
  "pow2 e = 2 powr of_int e"

definition expo :: "real \<Rightarrow> int" where
  "expo x = (if x = 0 then - 1022 else max \<lfloor>log 2 \<bar>x\<bar>\<rfloor> (- 1022))"

definition ulp :: "real \<Rightarrow> real" where
  "ulp x = pow2 (expo x - 52)"

definition rndv :: "real \<Rightarrow> real" where
  "rndv x = sgn x * (of_int (rne (\<bar>x\<bar> / ulp x)) * ulp x)"

definition huge :: real where
  "huge = 2 ^ 1024"

definition rnd :: "real \<Rightarrow> jsnum" where
  "rnd x = (let r = rndv x in
              if huge \<le> \<bar>r\<bar> then infinity (x < 0)
              else if r = 0 then zero (x < 0)
              else Num r)"

text \<open>A \<open>jsnum\<close> is a double when rounding leaves it unchanged.\<close>

fun isDouble :: "jsnum \<Rightarrow> bool" where
  "isDouble (Num x) = (rnd x = Num x)"
| "isDouble NegZero = True"
| "isDouble PInf = True"
| "isDouble NInf = True"
| "isDouble NaN = True"

text \<open>A decimal literal of the source denotes the double nearest to it.\<close>

definition lit :: "real \<Rightarrow> jsnum" where
  "lit x = rnd x"

subsection \<open>Arithmetic\<close>

text \<open>
  Unary minus and \<open>Math.abs\<close> act on the sign bit.  \<open>+\<close>, \<open>*\<close> and \<open>/\<close> follow IEEE 754:
  \<open>NaN\<close> is absorbing, \<open>Infinity - Infinity\<close>, \<open>Infinity * 0\<close>, \<open>0 / 0\<close> and
  \<open>Infinity / Infinity\<close> are \<open>NaN\<close>, an exact zero result takes its sign from the operands,
  and every other result is rounded.  \<open>a - b\<close> is \<open>a + (-b)\<close>.
\<close>

fun jneg :: "jsnum \<Rightarrow> jsnum" where
  "jneg (Num x) = (if x = 0 then NegZero else Num (- x))"
| "jneg NegZero = Num 0"
| "jneg PInf = NInf"
| "jneg NInf = PInf"
| "jneg NaN = NaN"

fun jabs :: "jsnum \<Rightarrow> jsnum" where
  "jabs (Num x) = Num \<bar>x\<bar>"
| "jabs NegZero = Num 0"
| "jabs PInf = PInf"
| "jabs NInf = PInf"
| "jabs NaN = NaN"

definition jadd :: "jsnum \<Rightarrow> jsnum \<Rightarrow> jsnum" where
  "jadd a b =
     (if a = NaN \<or> b = NaN then NaN
      else if isFinite a \<and> isFinite b then
        (if val a + val b = 0 then zero (negative a \<and> negative b) else rnd (val a + val b))
      else if isFinite a then b
      else if isFinite b then a
      else if a = b then a else NaN)"

definition jsub :: "jsnum \<Rightarrow> jsnum \<Rightarrow> jsnum" where
  "jsub a b = jadd a (jneg b)"

definition jmul :: "jsnum \<Rightarrow> jsnum \<Rightarrow> jsnum" where
  "jmul a b =
     (if a = NaN \<or> b = NaN then NaN
      else if isFinite a \<and> isFinite b then
        (if val a * val b = 0 then zero (negative a \<noteq> negative b) else rnd (val a * val b))
      else if (isFinite a \<and> val a = 0) \<or> (isFinite b \<and> val b = 0) then NaN
      else infinity (negative a \<noteq> negative b))"

definition jdiv :: "jsnum \<Rightarrow> jsnum \<Rightarrow> jsnum" where
  "jdiv a b =
     (if a = NaN \<or> b = NaN then NaN
      else if isFinite a \<and> isFinite b then
        (if val b = 0 then (if val a = 0 then NaN else infinity (negative a \<noteq> negative b))
         else if val a = 0 then zero (negative a \<noteq> negative b)
         else rnd (val a / val b))
      else if isFinite b then infinity (negative a \<noteq> negative b)
      else if isFinite a then zero (negative a \<noteq> negative b)
      else NaN)"

subsection \<open>Comparisons, \<open>Math.max\<close> and \<open>Math.min\<close>\<close>

text \<open>
  \<open>a < b\<close>, \<open>a <= b\<close>, \<open>a > b\<close>, \<open>a >= b\<close>: every comparison with \<open>NaN\<close> is false, the two
  zeros are equal, and the infinities lie beyond every finite double.
\<close>

definition js_lt :: "jsnum \<Rightarrow> jsnum \<Rightarrow> bool" where
  "js_lt a b =
     (if a = NaN \<or> b = NaN then False
      else if a = PInf \<or> b = NInf then False
      else if a = NInf \<or> b = PInf then True
      else val a < val b)"

definition js_le :: "jsnum \<Rightarrow> jsnum \<Rightarrow> bool" where
  "js_le a b = (a \<noteq> NaN \<and> b \<noteq> NaN \<and> \<not> js_lt b a)"

definition js_gt :: "jsnum \<Rightarrow> jsnum \<Rightarrow> bool" where
  "js_gt a b = js_lt b a"

definition js_ge :: "jsnum \<Rightarrow> jsnum \<Rightarrow> bool" where
  "js_ge a b = js_le b a"

text \<open>
  \<open>Math.max(a, b)\<close> and \<open>Math.min(a, b)\<close>: \<open>NaN\<close> if an argument is \<open>NaN\<close>; \<open>+0\<close> counts as
  larger than \<open>-0\<close>.
\<close>

definition jmax :: "jsnum \<Rightarrow> jsnum \<Rightarrow> jsnum" where
  "jmax a b =
     (if a = NaN \<or> b = NaN then NaN
      else if js_lt a b then b
      else if js_lt b a then a
      else if negative a then b else a)"

definition jmin :: "jsnum \<Rightarrow> jsnum \<Rightarrow> jsnum" where
  "jmin a b =
     (if a = NaN \<or> b = NaN then NaN
      else if js_lt a b then a
      else if js_lt b a then b
      else if negative a then a else b)"

subsection \<open>The library\<close>

text \<open>
  \<open>Math.exp\<close> and \<open>Math.log\<close> are approximated by the platform, and printing a number in
  exponent notation picks the digits of its shortest decimal form.  The three are
  parameters of the development: every function of the program that uses one of them takes
  the library \<open>L\<close>, and a theorem names the properties of the library it relies on.
  \<open>firstDigit L x\<close> is the first digit of the print of \<open>x\<close>.
\<close>

record jslib =
  Mexp :: "jsnum \<Rightarrow> jsnum"
  Mlog :: "jsnum \<Rightarrow> jsnum"
  firstDigit :: "real \<Rightarrow> real"

text \<open>\<open>const epsilon = 1e-9;\<close>\<close>

definition epsilon :: jsnum where
  "epsilon = lit (1 / 10 ^ 9)"

subsection \<open>Parsing and printing\<close>

text \<open>
  \<open>parseFloat(x)\<close> of a number: the number is printed and read back, which returns it
  unchanged, except that \<open>-0\<close> prints as \<open>0\<close>.
\<close>

fun parseFloat :: "jsnum \<Rightarrow> jsnum" where
  "parseFloat (Num x) = Num x"
| "parseFloat NegZero = Num 0"
| "parseFloat PInf = PInf"
| "parseFloat NInf = NInf"
| "parseFloat NaN = NaN"

text \<open>
  \<open>parseInt(x, 10)\<close> of a number prints it and reads the leading integer digits.  A
  number of magnitude in \<open>[1e-6, 1e21)\<close> is printed in positional notation, so the digits
  read are its integer part (truncation towards zero).  Outside that range the print is
  in exponent notation (\<open>d.ddde\<plusminus>n\<close>) and the digits read are the single leading digit
  \<open>d\<close>.  \<open>Infinity\<close> and \<open>NaN\<close> print as text and read as \<open>NaN\<close>.  \<open>signed s m\<close> is the
  number of sign \<open>s\<close> and magnitude \<open>m\<close>.
\<close>

definition signed :: "bool \<Rightarrow> real \<Rightarrow> jsnum" where
  "signed s m = (if m = 0 then zero s else Num (if s then - m else m))"

fun parseInt :: "jslib \<Rightarrow> jsnum \<Rightarrow> jsnum" where
  "parseInt L (Num x) =
     (if x = 0 then Num 0
      else if val (lit (1 / 10 ^ 6)) \<le> \<bar>x\<bar> \<and> \<bar>x\<bar> < 10 ^ 21
        then signed (x < 0) (of_int \<lfloor>\<bar>x\<bar>\<rfloor>)
      else signed (x < 0) (firstDigit L x))"
| "parseInt L NegZero = Num 0"
| "parseInt L PInf = NaN"
| "parseInt L NInf = NaN"
| "parseInt L NaN = NaN"

text \<open>\<open>a || d\<close> on a number \<open>a\<close>: \<open>NaN\<close> and the zeros are falsy and give the fallback \<open>d\<close>.\<close>

definition orElse :: "jsnum \<Rightarrow> jsnum \<Rightarrow> jsnum" where
  "orElse a d = (if a = NaN \<or> (isFinite a \<and> val a = 0) then d else a)"

text \<open>
  \<open>x.toFixed(d)\<close> returns a string.  For a finite \<open>|x| < 1e21\<close> it is the sign (\<open>-\<close> iff
  \<open>x < 0\<close>) followed by the integer \<open>n\<close> nearest to \<open>|x| * 10^d\<close> (the larger one on a tie)
  written with \<open>d\<close> decimals; the string is represented by these three parts.  Otherwise
  it is the ordinary print of \<open>x\<close>.  \<open>Number(s)\<close> reads such a string back as the nearest
  double.
\<close>

datatype fixed = Decimal bool nat nat | Printed jsnum

definition toFixed :: "nat \<Rightarrow> jsnum \<Rightarrow> fixed" where
  "toFixed d v =
     (if isFinite v \<and> \<bar>val v\<bar> < 10 ^ 21
        then Decimal (val v < 0) (nat \<lfloor>\<bar>val v\<bar> * 10 ^ d + 1 / 2\<rfloor>) d
      else Printed v)"

fun Number :: "fixed \<Rightarrow> jsnum" where
  "Number (Decimal neg n d) =
     (if n = 0 then zero neg
      else rnd (if neg then - (real n / 10 ^ d) else real n / 10 ^ d))"
| "Number (Printed v) = (if v = NegZero then Num 0 else v)"

section \<open>The improved simulator: state and defensive parsing\<close>

datatype route = Iv | Oral

text \<open>
  The \<open>useState\<close> cells that the computation reads.  \<open>administrationType\<close> is only ever
  set to \<open>'iv'\<close> or \<open>'oral'\<close>.
\<close>

record pk_state =
  administrationType :: route
  dose :: jsnum
  volume :: jsnum
  ke :: jsnum
  ka :: jsnum
  bioavailability :: jsnum
  dosingInterval :: jsnum
  numberOfDoses :: jsnum
  therapeuticMin :: jsnum
  therapeuticMax :: jsnum

text \<open>The helpers with defensive parsing, in the order of the source.\<close>

definition nDose :: "jslib \<Rightarrow> pk_state \<Rightarrow> jsnum" where
  "nDose L st = jmax (Num 1) (orElse (parseInt L (numberOfDoses st)) (Num 1))"

definition intv :: "pk_state \<Rightarrow> jsnum" where
  "intv st = jmax (lit (1 / 10)) (orElse (parseFloat (dosingInterval st)) (lit (1 / 10)))"

definition numericDose :: "pk_state \<Rightarrow> jsnum" where
  "numericDose st = jmax (Num 0) (orElse (parseFloat (dose st)) (Num 0))"

definition numericV :: "pk_state \<Rightarrow> jsnum" where
  "numericV st = jmax (lit (1 / 10 ^ 4)) (orElse (parseFloat (volume st)) (lit (1 / 10 ^ 4)))"

definition numericKe :: "pk_state \<Rightarrow> jsnum" where
  "numericKe st = jmax epsilon (orElse (parseFloat (ke st)) epsilon)"

definition numericKa :: "pk_state \<Rightarrow> jsnum" where
  "numericKa st = jmax epsilon (orElse (parseFloat (ka st)) epsilon)"

definition numericF :: "pk_state \<Rightarrow> jsnum" where
  "numericF st = jmin (Num 1) (jmax (Num 0) (orElse (parseFloat (bioavailability st)) (Num 0)))"

section \<open>The concentration model\<close>

text \<open>\<open>calculateIVBolus = (t, C0, keVal) => C0 * Math.exp(-keVal * t)\<close>\<close>

definition calculateIVBolus :: "jslib \<Rightarrow> jsnum \<Rightarrow> jsnum \<Rightarrow> jsnum \<Rightarrow> jsnum" where
  "calculateIVBolus L t C0 keVal = jmul C0 (Mexp L (jmul (jneg keVal) t))"

text \<open>
  \<open>calculateOralDose\<close>: the limiting form when \<open>Math.abs(kaVal - keVal) < 1e-6\<close>, the
  closed form otherwise.  The products and quotients associate to the left as in the
  source.
\<close>

definition calculateOralDose ::
  "jslib \<Rightarrow> jsnum \<Rightarrow> jsnum \<Rightarrow> jsnum \<Rightarrow> jsnum \<Rightarrow> jsnum \<Rightarrow> jsnum \<Rightarrow> jsnum" where
  "calculateOralDose L t D V kaVal keVal F =
     (if js_lt (jabs (jsub kaVal keVal)) (lit (1 / 10 ^ 6))
        then jmul (jmul (jdiv (jmul (jmul F D) kaVal) V) t) (Mexp L (jmul (jneg kaVal) t))
      else
        (let coeff = jdiv (jmul (jmul F D) kaVal) (jmul V (jsub kaVal keVal))
         in jmul coeff (jsub (Mexp L (jmul (jneg keVal) t)) (Mexp L (jmul (jneg kaVal) t)))))"

text \<open>
  \<open>calculateMultipleDoses\<close>: the loop \<open>for (let i = 0; i < numberOfDosesVal; i++)\<close> with
  the running \<open>total\<close>.  The counter is a double, so \<open>i++\<close> is a rounded addition and the
  loop need not end: \<open>None\<close> is a run that does not return.
\<close>

partial_function (option) dosesLoop ::
  "jsnum \<Rightarrow> (jsnum \<Rightarrow> jsnum) \<Rightarrow> jsnum \<Rightarrow> jsnum \<Rightarrow> jsnum \<Rightarrow> jsnum \<Rightarrow> jsnum option" where
  "dosesLoop t single tau n i totalAcc =
     (if js_lt i n
        then dosesLoop t single tau n (jadd i (Num 1))
               (let doseTime = jmul i tau
                in if js_ge t doseTime then jadd totalAcc (single (jsub t doseTime))
                   else totalAcc)
      else Some totalAcc)"

definition calculateMultipleDoses ::
  "jsnum \<Rightarrow> (jsnum \<Rightarrow> jsnum) \<Rightarrow> jsnum \<Rightarrow> jsnum \<Rightarrow> jsnum option" where
  "calculateMultipleDoses t single tau n = dosesLoop t single tau n (Num 0) (Num 0)"

text \<open>The concentration that \<open>simulatePK\<close> computes at the time \<open>t\<close>.\<close>

definition concentrationAt :: "jslib \<Rightarrow> pk_state \<Rightarrow> jsnum \<Rightarrow> jsnum option" where
  "concentrationAt L st t =
     (case administrationType st of
        Iv \<Rightarrow>
          (let C0 = jdiv (numericDose st) (numericV st)
           in calculateMultipleDoses t (\<lambda>tau. calculateIVBolus L tau C0 (numericKe st))
                (intv st) (nDose L st))
      | Oral \<Rightarrow>
          calculateMultipleDoses t
            (\<lambda>tau. calculateOralDose L tau (numericDose st) (numericV st) (numericKa st)
                     (numericKe st) (numericF st))
            (intv st) (nDose L st))"

section \<open>The sample sequence\<close>

datatype status = Subtherapeutic | Therapeutic | Toxic

text \<open>
  One element of \<open>timePoints\<close>.  The band bounds are copied from the state as they are
  (\<open>Number\<close> of a number is that number).
\<close>

record sample =
  time :: jsnum
  concentration :: jsnum
  s_therapeuticMin :: jsnum
  s_therapeuticMax :: jsnum
  inRange :: bool
  status :: status

definition mkSample :: "pk_state \<Rightarrow> jsnum \<Rightarrow> jsnum \<Rightarrow> sample" where
  "mkSample st t c =
     \<lparr> time = Number (toFixed 2 t),
       concentration = c,
       s_therapeuticMin = therapeuticMin st,
       s_therapeuticMax = therapeuticMax st,
       inRange = (js_ge c (therapeuticMin st) \<and> js_le c (therapeuticMax st)),
       status = (if js_lt c (therapeuticMin st) then Subtherapeutic
                 else if js_gt c (therapeuticMax st) then Toxic
                 else Therapeutic) \<rparr>"

definition sampleAt :: "jslib \<Rightarrow> pk_state \<Rightarrow> jsnum \<Rightarrow> sample option" where
  "sampleAt L st t = map_option (mkSample st t) (concentrationAt L st t)"

text \<open>\<open>const dt = 0.25;\<close>\<close>

definition dt :: jsnum where
  "dt = Num 0.25"

text \<open>
  \<open>const maxTime = Math.max(24, nDose * intv + 24);\<close> and the loop
  \<open>for (let t = 0; t <= maxTime + 1e-9; t += dt)\<close>, which appends one sample per round.
\<close>

definition maxTime :: "jslib \<Rightarrow> pk_state \<Rightarrow> jsnum" where
  "maxTime L st = jmax (Num 24) (jadd (jmul (nDose L st) (intv st)) (Num 24))"

partial_function (option) simLoop ::
  "jslib \<Rightarrow> pk_state \<Rightarrow> jsnum \<Rightarrow> sample list \<Rightarrow> sample list option" where
  "simLoop L st t timePoints =
     (if js_le t (jadd (maxTime L st) (lit (1 / 10 ^ 9)))
        then (case sampleAt L st t of
                None \<Rightarrow> None
              | Some s \<Rightarrow> simLoop L st (jadd t dt) (timePoints @ [s]))
      else Some timePoints)"

definition simulatePK :: "jslib \<Rightarrow> pk_state \<Rightarrow> sample list option" where
  "simulatePK L st = simLoop L st (Num 0) []"

section \<open>The metrics\<close>

text \<open>
  The record returned by \<open>calculateMetrics\<close>.  Every field is a string made by \<open>toFixed\<close>;
  \<open>Tmax\<close> and \<open>Cmax\<close> are \<open>None\<close> where the source shows a dash, and the steady-state fields
  are \<open>None\<close> where the source leaves them \<open>null\<close>.
\<close>

record metrics =
  m_halfLife :: fixed
  Tmax :: "fixed option"
  Cmax :: "fixed option"
  AUC :: fixed
  percentInRange :: fixed
  Css_avg :: "fixed option"
  Css_max :: "fixed option"
  Css_min :: "fixed option"

text \<open>\<open>const halfLife = Math.log(2) / numericKe;\<close>\<close>

definition halfLifeOf :: "jslib \<Rightarrow> pk_state \<Rightarrow> jsnum" where
  "halfLifeOf L st = jdiv (Mlog L (Num 2)) (numericKe st)"

text \<open>
  \<open>Tmax\<close> and \<open>Cmax\<close> stay \<open>null\<close> unless
  \<open>administrationType === 'oral' && numericKa > numericKe + 1e-12\<close>.
\<close>

definition peakTime :: "jslib \<Rightarrow> pk_state \<Rightarrow> jsnum option" where
  "peakTime L st =
     (if administrationType st = Oral
         \<and> js_gt (numericKa st) (jadd (numericKe st) (lit (1 / 10 ^ 12)))
        then Some (jdiv (Mlog L (jdiv (numericKa st) (numericKe st)))
                        (jsub (numericKa st) (numericKe st)))
      else None)"

definition peakConc :: "jslib \<Rightarrow> pk_state \<Rightarrow> jsnum option" where
  "peakConc L st =
     map_option
       (\<lambda>tmax. calculateOralDose L tmax (numericDose st) (numericV st) (numericKa st)
                 (numericKe st) (numericF st))
       (peakTime L st)"

text \<open>
  The trapezoid loop \<open>for (let i = 1; i < data.length; i++)\<close>.  An array has fewer than
  \<open>2^32\<close> elements, so its indices are exact and the counter is a natural number.
\<close>

function aucLoop :: "sample list \<Rightarrow> nat \<Rightarrow> jsnum \<Rightarrow> jsnum" where
  "aucLoop data i aucAcc =
     (if i < length data
        then aucLoop data (i + 1)
               (jadd aucAcc
                  (jmul (jdiv (jadd (concentration (data ! i)) (concentration (data ! (i - 1))))
                              (Num 2))
                        (jsub (time (data ! i)) (time (data ! (i - 1))))))
      else aucAcc)"
  by pat_completeness auto
termination
  by (relation "measure (\<lambda>(data, i, aucAcc). length data - i)") auto

definition aucOf :: "sample list \<Rightarrow> jsnum" where
  "aucOf data = aucLoop data 1 (Num 0)"

text \<open>\<open>(therapeuticPoints / data.length) * 100\<close>\<close>

definition percentInRangeOf :: "sample list \<Rightarrow> jsnum" where
  "percentInRangeOf data =
     jmul (jdiv (Num (real (length (filter inRange data)))) (Num (real (length data))))
          (Num 100)"

text \<open>
  The steady-state block.  \<open>Math.max(...xs)\<close> and \<open>Math.min(...xs)\<close> fold the two-argument
  operations from \<open>-Infinity\<close> and \<open>Infinity\<close>.
\<close>

definition windowHours :: "jslib \<Rightarrow> pk_state \<Rightarrow> jsnum" where
  "windowHours L st = jmin (jmul (Num 5) (halfLifeOf L st)) (jmul (intv st) (Num 4))"

definition steadyData :: "jslib \<Rightarrow> pk_state \<Rightarrow> sample list \<Rightarrow> sample list" where
  "steadyData L st data =
     (let startTime = jsub (time (last data)) (windowHours L st)
      in filter (\<lambda>d. js_ge (time d) startTime) data)"

definition sufficientTimeForSteadyState :: "jslib \<Rightarrow> pk_state \<Rightarrow> sample list \<Rightarrow> bool" where
  "sufficientTimeForSteadyState L st data =
     (data \<noteq> [] \<and> js_ge (time (last data)) (jmul (Num 5) (halfLifeOf L st)))"

definition steadyState ::
  "jslib \<Rightarrow> pk_state \<Rightarrow> sample list \<Rightarrow> fixed option \<times> fixed option \<times> fixed option" where
  "steadyState L st data =
     (if js_gt (nDose L st) (Num 1) \<and> sufficientTimeForSteadyState L st data
        then (let sd = steadyData L st data
              in if sd \<noteq> []
                   then (Some (toFixed 3 (jdiv (foldl (\<lambda>s x. jadd s (concentration x)) (Num 0) sd)
                                               (Num (real (length sd))))),
                         Some (toFixed 3 (foldl jmax NInf (map concentration sd))),
                         Some (toFixed 3 (foldl jmin PInf (map concentration sd))))
                 else (None, None, None))
      else (None, None, None))"

text \<open>\<open>calculateMetrics\<close>: \<open>None\<close> is the \<open>null\<close> returned when there is no data.\<close>

definition calculateMetrics :: "jslib \<Rightarrow> pk_state \<Rightarrow> sample list \<Rightarrow> metrics option" where
  "calculateMetrics L st data =
     (if data = [] then None
      else Some
        \<lparr> m_halfLife = toFixed 3 (halfLifeOf L st),
          Tmax = map_option (toFixed 3) (peakTime L st),
          Cmax = map_option (toFixed 3) (peakConc L st),
          AUC = toFixed 3 (aucOf data),
          percentInRange = toFixed 1 (percentInRangeOf data),
          Css_avg = fst (steadyState L st data),
          Css_max = fst (snd (steadyState L st data)),
          Css_min = snd (snd (steadyState L st data)) \<rparr>)"

section \<open>The legacy simulator\<close>

text \<open>
  The first component keeps four cells \<open>dose\<close>, \<open>interval\<close>, \<open>halfLife\<close>, \<open>duration\<close> and
  computes its data while rendering: \<open>k = Math.log(2) / halfLife\<close>, an outer loop
  \<open>for (let t = 0; t <= duration; t++)\<close> and an inner loop
  \<open>for (let n = 0; n <= t / interval; n++)\<close>.  Both counters are doubles and neither loop
  need end.
\<close>

partial_function (option) legacyInner ::
  "jslib \<Rightarrow> jsnum \<Rightarrow> jsnum \<Rightarrow> jsnum \<Rightarrow> jsnum \<Rightarrow> jsnum \<Rightarrow> jsnum \<Rightarrow> jsnum option" where
  "legacyInner L doseVal k interval t n conc =
     (if js_le n (jdiv t interval)
        then legacyInner L doseVal k interval t (jadd n (Num 1))
               (let doseTime = jmul n interval
                in if js_ge t doseTime
                     then jadd conc (jmul doseVal (Mexp L (jmul (jneg k) (jsub t doseTime))))
                   else conc)
      else Some conc)"

record legacy_point =
  l_time :: jsnum
  l_concentration :: jsnum

partial_function (option) legacyOuter ::
  "jslib \<Rightarrow> jsnum \<Rightarrow> jsnum \<Rightarrow> jsnum \<Rightarrow> jsnum \<Rightarrow> jsnum \<Rightarrow> legacy_point list
     \<Rightarrow> legacy_point list option" where
  "legacyOuter L doseVal k interval duration t data =
     (if js_le t duration
        then (case legacyInner L doseVal k interval t (Num 0) (Num 0) of
                None \<Rightarrow> None
              | Some conc \<Rightarrow>
                  legacyOuter L doseVal k interval duration (jadd t (Num 1))
                    (data @ [\<lparr> l_time = t, l_concentration = conc \<rparr>]))
      else Some data)"

definition legacyData ::
  "jslib \<Rightarrow> jsnum \<Rightarrow> jsnum \<Rightarrow> jsnum \<Rightarrow> jsnum \<Rightarrow> legacy_point list option" where
  "legacyData L doseVal interval halfLife duration =
     legacyOuter L doseVal (jdiv (Mlog L (Num 2)) halfLife) interval duration (Num 0) []"

section \<open>Auxiliary notions\<close>

text \<open>
  One round of the superposition loop at the index \<open>i\<close>, and the number of rounds the loop
  makes for the dose count \<open>n\<close>.
\<close>

definition doseStep :: "jsnum \<Rightarrow> (jsnum \<Rightarrow> jsnum) \<Rightarrow> jsnum \<Rightarrow> jsnum \<Rightarrow> nat \<Rightarrow> jsnum" where
  "doseStep t single tau totalAcc i =
     (let doseTime = jmul (Num (real i)) tau
      in if js_ge t doseTime then jadd totalAcc (single (jsub t doseTime)) else totalAcc)"

definition rounds :: "jsnum \<Rightarrow> nat" where
  "rounds n = (if isFinite n then nat \<lceil>val n\<rceil> else 0)"

text \<open>The bound of the sampling loop and the index of the last grid point below it.\<close>

definition loopBound :: "jslib \<Rightarrow> pk_state \<Rightarrow> jsnum" where
  "loopBound L st = jadd (maxTime L st) (lit (1 / 10 ^ 9))"

definition lastIndex :: "jslib \<Rightarrow> pk_state \<Rightarrow> nat" where
  "lastIndex L st = nat \<lfloor>4 * val (loopBound L st)\<rfloor>"

text \<open>A value that is not negative: \<open>NaN\<close>, or at least zero.\<close>

definition nonNeg :: "jsnum \<Rightarrow> bool" where
  "nonNeg v = (v = NaN \<or> js_le (Num 0) v)"

definition nonPos :: "jsnum \<Rightarrow> bool" where
  "nonPos v = (v = NaN \<or> js_le v (Num 0))"

text \<open>The two zeros.\<close>

definition isZero :: "jsnum \<Rightarrow> bool" where
  "isZero v = (v = Num 0 \<or> v = NegZero)"

section \<open>A reference library and example states\<close>

text \<open>
  A library whose \<open>Math.exp\<close> and \<open>Math.log\<close> are correctly rounded, with the special
  values that the language fixes; it is the library of the examples.  Its \<open>firstDigit\<close> is
  the leading digit of the exact value.
\<close>

definition refLib :: jslib where
  "refLib =
     \<lparr> Mexp = (\<lambda>v. case v of Num x \<Rightarrow> rnd (exp x) | NegZero \<Rightarrow> Num 1 | PInf \<Rightarrow> PInf
                     | NInf \<Rightarrow> Num 0 | NaN \<Rightarrow> NaN),
       Mlog = (\<lambda>v. case v of
                     Num x \<Rightarrow> (if x < 0 then NaN else if x = 0 then NInf else rnd (ln x))
                   | NegZero \<Rightarrow> NInf | PInf \<Rightarrow> PInf | NInf \<Rightarrow> NaN | NaN \<Rightarrow> NaN),
       firstDigit = (\<lambda>x. of_int \<lfloor>\<bar>x\<bar> / 10 powr of_int \<lfloor>log 10 \<bar>x\<bar>\<rfloor>\<rfloor>) \<rparr>"

text \<open>The initial values of the \<open>useState\<close> cells.\<close>

definition initialState :: pk_state where
  "initialState =
     \<lparr> administrationType = Iv, dose = Num 500, volume = Num 50, ke = lit (1 / 10),
       ka = Num 0.5, bioavailability = lit (4 / 5), dosingInterval = Num 8,
       numberOfDoses = Num 1, therapeuticMin = Num 5, therapeuticMax = Num 15 \<rparr>"

text \<open>A band whose lower bound is not a number and whose upper bound is negative.\<close>

definition badBandState :: pk_state where
  "badBandState = initialState \<lparr> therapeuticMin := NaN, therapeuticMax := Num (- 5) \<rparr>"


text \<open>Three doses, for the example of the superposition.\<close>

definition threeDoseState :: pk_state where
  "threeDoseState = initialState \<lparr> numberOfDoses := Num 3 \<rparr>"

text \<open>Two rate constants whose difference is the double \<open>1e-6\<close>.\<close>

definition closeKa :: real where
  "closeKa = 5511206944066899 / 2 ^ 71"

definition closeKe :: real where
  "closeKe = 6300047405264153 / 2 ^ 72"

text \<open>The oral route with the initial values, and with \<open>ka\<close> one unit in the last place above \<open>ke = 1\<close>.\<close>

definition oralState :: pk_state where
  "oralState = initialState \<lparr> administrationType := Oral \<rparr>"

definition marginState :: pk_state where
  "marginState = initialState \<lparr> administrationType := Oral, ke := Num 1, ka := Num (1 + 1 / 2 ^ 52) \<rparr>"

text \<open>One sample at time 0 with the concentration 10.\<close>

definition oneSample :: "sample list" where
  "oneSample =
     [\<lparr> time = Num 0, concentration = Num 10, s_therapeuticMin = Num 5,
        s_therapeuticMax = Num 15, inRange = True, status = Therapeutic \<rparr>]"

section \<open>Lemmas about the numbers\<close>

subsection \<open>Powers of two\<close>

lemma pow2_pos [simp]: "0 < pow2 e"
  by (simp add: pow2_def)

lemma pow2_nonneg [simp]: "0 \<le> pow2 e"
  by (simp add: pow2_def)

lemma pow2_add: "pow2 (a + b) = pow2 a * pow2 b"
  by (simp add: pow2_def powr_add)

lemma pow2_diff: "pow2 (a - b) = pow2 a / pow2 b"
  by (simp add: pow2_def powr_diff)

lemma pow2_nat: "pow2 (int n) = 2 ^ n"
  by (simp add: pow2_def powr_realpow)

lemma pow2_neg_nat: "pow2 (- int n) = 1 / 2 ^ n"
  by (simp add: pow2_def powr_minus_divide powr_realpow)

lemma pow2_numeral: "pow2 (numeral k) = 2 ^ numeral k"
  using pow2_nat [of "numeral k"] by simp

lemma pow2_neg_numeral: "pow2 (- numeral k) = 1 / 2 ^ numeral k"
  using pow2_neg_nat [of "numeral k"] by simp

lemma pow2_0 [simp]: "pow2 0 = 1"
  by (simp add: pow2_def)

lemma pow2_Suc: "pow2 (e + 1) = 2 * pow2 e"
  by (simp add: pow2_def powr_add)

lemma pow2_1 [simp]: "pow2 1 = 2"
  by (simp add: pow2_def)

lemma pow2_m1 [simp]: "pow2 (- 1) = 1 / 2"
  by (simp add: pow2_def powr_minus_divide)

lemma pow2_not_le_0 [simp]: "\<not> pow2 e \<le> 0"
  using pow2_pos [of e] by linarith

lemma pow2_mono: "a \<le> b \<Longrightarrow> pow2 a \<le> pow2 b"
  by (simp add: pow2_def)

lemma pow2_less: "a < b \<Longrightarrow> pow2 a < pow2 b"
  by (simp add: pow2_def)

lemma pow2_le_iff [simp]: "pow2 a \<le> pow2 b \<longleftrightarrow> a \<le> b"
  by (simp add: pow2_def)

lemma pow2_less_iff [simp]: "pow2 a < pow2 b \<longleftrightarrow> a < b"
  by (simp add: pow2_def)

lemma pow2_int: "0 \<le> e \<Longrightarrow> pow2 e = of_int (2 ^ nat e)"
  using pow2_nat [of "nat e"] by simp

subsection \<open>Rounding to an integer\<close>

lemma rne_bounds: "of_int (rne q) \<le> q + 1 / 2 \<and> q - 1 / 2 \<le> of_int (rne q)"
  unfolding rne_def Let_def by (auto; linarith)

lemma rne_floor: "\<lfloor>q\<rfloor> \<le> rne q \<and> rne q \<le> \<lfloor>q\<rfloor> + 1"
  unfolding rne_def Let_def by auto

lemma rne_of_int [simp]: "rne (of_int n) = n"
  unfolding rne_def Let_def by simp

lemma rne_mono:
  assumes "q \<le> q'"
  shows "rne q \<le> rne q'"
proof (cases "\<lfloor>q\<rfloor> = \<lfloor>q'\<rfloor>")
  case True
  then show ?thesis
    using assms unfolding rne_def Let_def by (auto; linarith)
next
  case False
  have "\<lfloor>q\<rfloor> \<le> \<lfloor>q'\<rfloor>"
    using assms by (rule floor_mono)
  with False have "\<lfloor>q\<rfloor> + 1 \<le> \<lfloor>q'\<rfloor>"
    by simp
  with rne_floor [of q] rne_floor [of q'] show ?thesis
    by linarith
qed

lemma rne_le_int: "q \<le> of_int n \<Longrightarrow> rne q \<le> n"
  using rne_mono [of q "of_int n"] by simp

lemma rne_ge_int: "of_int n \<le> q \<Longrightarrow> n \<le> rne q"
  using rne_mono [of "of_int n" q] by simp

lemma rne_nonneg: "0 \<le> q \<Longrightarrow> 0 \<le> rne q"
  using rne_ge_int [of 0 q] by simp

lemma rne_near: "\<bar>f\<bar> < 1 / 2 \<Longrightarrow> rne (of_int n + f) = n"
proof -
  assume f: "\<bar>f\<bar> < 1 / 2"
  show ?thesis
  proof (cases "0 \<le> f")
    case True
    then have "\<lfloor>of_int n + f\<rfloor> = n"
      using f by (simp add: floor_unique)
    then show ?thesis
      using f True unfolding rne_def Let_def by simp
  next
    case False
    then have "\<lfloor>of_int n + f\<rfloor> = n - 1"
      using f by (intro floor_unique) auto
    then show ?thesis
      using f False unfolding rne_def Let_def by auto
  qed
qed

subsection \<open>The exponent of a real\<close>

lemma expo_minus [simp]: "expo (- x) = expo x"
  by (simp add: expo_def)

lemma expo_abs [simp]: "expo \<bar>x\<bar> = expo x"
  by (simp add: expo_def)

lemma ulp_minus [simp]: "ulp (- x) = ulp x"
  by (simp add: ulp_def)

lemma ulp_abs [simp]: "ulp \<bar>x\<bar> = ulp x"
  by (simp add: ulp_def)

lemma ulp_pos [simp]: "0 < ulp x"
  by (simp add: ulp_def)

lemma ulp_nonneg [simp]: "0 \<le> ulp x"
  by (simp add: ulp_def)

lemma ulp_nz [simp]: "ulp x \<noteq> 0"
  using ulp_pos [of x] by linarith

lemma pow2_nz [simp]: "pow2 e \<noteq> 0"
  using pow2_pos [of e] by linarith

lemma expo_ge: "- 1022 \<le> expo x"
  by (simp add: expo_def)

lemma expo_eq:
  assumes "pow2 e \<le> \<bar>x\<bar>" and "\<bar>x\<bar> < pow2 (e + 1)" and "- 1022 \<le> e"
  shows "expo x = e"
proof -
  have pos: "0 < \<bar>x\<bar>"
    using assms(1) pow2_pos [of e] by linarith
  have "\<lfloor>log 2 \<bar>x\<bar>\<rfloor> = e"
    using assms(1,2) floor_log_eq_powr_iff [OF pos, of 2 e] by (simp add: pow2_def)
  then show ?thesis
    using assms(3) pos by (simp add: expo_def)
qed

lemma expo_subnormal:
  assumes "\<bar>x\<bar> < pow2 (- 1021)"
  shows "expo x = - 1022"
proof (cases "x = 0")
  case True
  then show ?thesis
    by (simp add: expo_def)
next
  case False
  then have pos: "0 < \<bar>x\<bar>"
    by simp
  define k where "k = \<lfloor>log 2 \<bar>x\<bar>\<rfloor>"
  have "pow2 k \<le> \<bar>x\<bar>"
    using floor_log_eq_powr_iff [OF pos, of 2 k] by (simp add: k_def pow2_def)
  with assms have "pow2 k < pow2 (- 1021)"
    by linarith
  then have "k \<le> - 1022"
    by simp
  then show ?thesis
    using False by (simp add: expo_def k_def)
qed

lemma expo_upper: "\<bar>x\<bar> < pow2 (expo x + 1)"
proof (cases "x = 0")
  case True
  then show ?thesis
    by simp
next
  case False
  then have pos: "0 < \<bar>x\<bar>"
    by simp
  define k where "k = \<lfloor>log 2 \<bar>x\<bar>\<rfloor>"
  have "\<bar>x\<bar> < pow2 (k + 1)"
    using floor_log_eq_powr_iff [OF pos, of 2 k] by (simp add: k_def pow2_def)
  also have "pow2 (k + 1) \<le> pow2 (expo x + 1)"
    using False by (simp add: expo_def k_def)
  finally show ?thesis .
qed

lemma expo_lower:
  assumes "- 1022 < expo x"
  shows "pow2 (expo x) \<le> \<bar>x\<bar>"
proof -
  have nz: "x \<noteq> 0"
    using assms by (auto simp: expo_def)
  then have pos: "0 < \<bar>x\<bar>"
    by simp
  define k where "k = \<lfloor>log 2 \<bar>x\<bar>\<rfloor>"
  have "pow2 k \<le> \<bar>x\<bar>"
    using floor_log_eq_powr_iff [OF pos, of 2 k] by (simp add: k_def pow2_def)
  moreover have "expo x = k"
    using assms nz by (simp add: expo_def k_def)
  ultimately show ?thesis
    by simp
qed

lemma expo_mono:
  assumes "\<bar>x\<bar> \<le> \<bar>y\<bar>"
  shows "expo x \<le> expo y"
proof (cases "- 1022 < expo x")
  case False
  then show ?thesis
    using expo_ge [of x] expo_ge [of y] by linarith
next
  case True
  from expo_lower [OF True] assms expo_upper [of y]
  have "pow2 (expo x) < pow2 (expo y + 1)"
    by linarith
  then show ?thesis
    by simp
qed

subsection \<open>Rounding to a double\<close>

lemma rndv_0 [simp]: "rndv 0 = 0"
  by (simp add: rndv_def)

lemma rndv_minus: "rndv (- x) = - rndv x"
  by (simp add: rndv_def sgn_minus)

lemma rne_0 [simp]: "rne 0 = 0"
  using rne_of_int [of 0] by simp

lemma rndv_pos_eq: "0 \<le> x \<Longrightarrow> rndv x = of_int (rne (x / ulp x)) * ulp x"
  by (cases "x = 0") (simp_all add: rndv_def)

lemma rndv_nonneg: "0 \<le> x \<Longrightarrow> 0 \<le> rndv x"
  using rne_nonneg [of "x / ulp x"] by (simp add: rndv_pos_eq zero_le_mult_iff)

lemma rndv_nonpos: "x \<le> 0 \<Longrightarrow> rndv x \<le> 0"
  using rndv_nonneg [of "- x"] by (simp add: rndv_minus)

lemma rndv_mono_pos:
  assumes "0 \<le> x" and "x \<le> y"
  shows "rndv x \<le> rndv y"
proof -
  have y0: "0 \<le> y"
    using assms by simp
  have le: "expo x \<le> expo y"
    using assms by (intro expo_mono) simp
  show ?thesis
  proof (cases "expo x = expo y")
    case True
    then have u: "ulp x = ulp y"
      by (simp add: ulp_def)
    have "x / ulp y \<le> y / ulp y"
      using assms(2) by (intro divide_right_mono) simp_all
    then have "rne (x / ulp y) \<le> rne (y / ulp y)"
      by (rule rne_mono)
    then have "(of_int (rne (x / ulp y)) :: real) * ulp y \<le> of_int (rne (y / ulp y)) * ulp y"
      by (simp add: mult_right_mono)
    then show ?thesis
      using assms y0 u by (simp add: rndv_pos_eq)
  next
    case False
    with le have lt: "expo x < expo y"
      by simp
    then have big: "- 1022 < expo y"
      using expo_ge [of x] by linarith
    have ylow: "pow2 (expo y) \<le> y"
      using expo_lower [OF big] y0 by simp
    have xup: "x < pow2 (expo x + 1)"
      using expo_upper [of x] assms by simp
    have "x / ulp x \<le> pow2 53"
    proof -
      have "x / ulp x \<le> pow2 (expo x + 1) / ulp x"
        using xup by (simp add: divide_right_mono)
      also have "\<dots> = pow2 53"
        unfolding ulp_def pow2_diff [symmetric] by simp
      finally show ?thesis .
    qed
    then have "x / ulp x \<le> of_int (2 ^ 53)"
      by (simp add: pow2_numeral)
    then have "rne (x / ulp x) \<le> 2 ^ 53"
      by (rule rne_le_int)
    then have "(of_int (rne (x / ulp x)) :: real) \<le> of_int (2 ^ 53)"
      by (simp only: of_int_le_iff)
    then have "(of_int (rne (x / ulp x)) :: real) * ulp x \<le> of_int (2 ^ 53) * ulp x"
      by (intro mult_right_mono) simp_all
    also have "of_int (2 ^ 53) * ulp x = pow2 (expo x + 1)"
    proof -
      have "pow2 (expo x + 1) = pow2 53 * pow2 (expo x - 52)"
        using pow2_add [of 53 "expo x - 52"] by (simp add: algebra_simps)
      then show ?thesis
        by (simp add: ulp_def pow2_numeral)
    qed
    also have "\<dots> \<le> pow2 (expo y)"
      using lt by simp
    finally have left: "rndv x \<le> pow2 (expo y)"
      using assms by (simp add: rndv_pos_eq)
    have "pow2 52 \<le> y / ulp y"
    proof -
      have "pow2 52 = pow2 (expo y) / ulp y"
        unfolding ulp_def pow2_diff [symmetric] by simp
      also have "\<dots> \<le> y / ulp y"
        using ylow by (simp add: divide_right_mono)
      finally show ?thesis .
    qed
    then have "of_int (2 ^ 52) \<le> y / ulp y"
      by (simp add: pow2_numeral)
    then have "2 ^ 52 \<le> rne (y / ulp y)"
      by (rule rne_ge_int)
    then have "(of_int (2 ^ 52) :: real) \<le> of_int (rne (y / ulp y))"
      by (simp only: of_int_le_iff)
    then have "of_int (2 ^ 52) * ulp y \<le> (of_int (rne (y / ulp y)) :: real) * ulp y"
      by (intro mult_right_mono) simp_all
    moreover have "of_int (2 ^ 52) * ulp y = pow2 (expo y)"
    proof -
      have "pow2 (expo y) = pow2 52 * pow2 (expo y - 52)"
        unfolding pow2_add [symmetric] by simp
      then show ?thesis
        by (simp add: ulp_def pow2_numeral)
    qed
    ultimately have "pow2 (expo y) \<le> of_int (rne (y / ulp y)) * ulp y"
      by linarith
    then have right: "pow2 (expo y) \<le> rndv y"
      using y0 by (simp only: rndv_pos_eq)
    from left right show ?thesis
      by linarith
  qed
qed

lemma rndv_mono:
  assumes "x \<le> y"
  shows "rndv x \<le> rndv y"
proof (cases "0 \<le> x")
  case True
  then show ?thesis
    using assms by (rule rndv_mono_pos)
next
  case False
  show ?thesis
  proof (cases "0 \<le> y")
    case True
    have "rndv x \<le> 0"
      using False by (intro rndv_nonpos) simp
    moreover have "0 \<le> rndv y"
      using True by (rule rndv_nonneg)
    ultimately show ?thesis
      by linarith
  next
    case False
    then have "rndv (- y) \<le> rndv (- x)"
      using assms by (intro rndv_mono_pos) simp_all
    then show ?thesis
      by (simp add: rndv_minus)
  qed
qed

text \<open>A multiple \<open>m * 2^e\<close> with \<open>|m| \<le> 2^53\<close> and \<open>e \<ge> -1074\<close> is left unchanged.\<close>

lemma rndv_exact:
  assumes x: "x = of_int m * pow2 e" and m: "\<bar>m\<bar> \<le> 2 ^ 53" and e: "- 1074 \<le> e"
  shows "rndv x = x"
proof -
  have "\<exists>n. \<bar>x\<bar> / ulp x = of_int n"
  proof (cases "expo x - 52 \<le> e")
    case True
    define d where "d = e - (expo x - 52)"
    have d0: "0 \<le> d"
      using True by (simp add: d_def)
    have "pow2 e = pow2 d * ulp x"
      unfolding ulp_def pow2_add [symmetric] by (simp add: d_def)
    moreover have "\<bar>x\<bar> = of_int \<bar>m\<bar> * pow2 e"
      using x by (simp add: abs_mult)
    ultimately have "\<bar>x\<bar> / ulp x = of_int \<bar>m\<bar> * pow2 d"
      by simp
    also have "\<dots> = of_int (\<bar>m\<bar> * 2 ^ nat d)"
      using pow2_int [OF d0] by simp
    finally show ?thesis
      by blast
  next
    case False
    then have lt: "e + 52 < expo x"
      by simp
    then have big: "- 1022 < expo x"
      using e by linarith
    have "pow2 (expo x) \<le> \<bar>x\<bar>"
      using expo_lower [OF big] .
    also have "\<bar>x\<bar> = of_int \<bar>m\<bar> * pow2 e"
      using x by (simp add: abs_mult)
    also have "\<dots> \<le> of_int (2 ^ 53) * pow2 e"
      using m by (intro mult_right_mono) (simp_all only: of_int_le_iff pow2_nonneg)
    also have "\<dots> = pow2 (e + 53)"
      unfolding pow2_add by (simp add: pow2_numeral)
    finally have "expo x \<le> e + 53"
      by simp
    with lt have ex: "expo x = e + 53"
      by simp
    have "pow2 (e + 53) \<le> of_int \<bar>m\<bar> * pow2 e"
      using \<open>pow2 (expo x) \<le> \<bar>x\<bar>\<close> \<open>\<bar>x\<bar> = of_int \<bar>m\<bar> * pow2 e\<close> ex by simp
    then have "pow2 53 * pow2 e \<le> of_int \<bar>m\<bar> * pow2 e"
      by (simp add: pow2_add mult.commute)
    then have "pow2 53 \<le> of_int \<bar>m\<bar>"
      by simp
    then have "(of_int (2 ^ 53) :: real) \<le> of_int \<bar>m\<bar>"
      by (simp add: pow2_numeral)
    then have "2 ^ 53 \<le> \<bar>m\<bar>"
      by (simp only: of_int_le_iff)
    with m have meq: "\<bar>m\<bar> = 2 ^ 53"
      by simp
    have "expo x - 52 = e + 1"
      using ex by simp
    then have "ulp x = pow2 (e + 1)"
      by (simp only: ulp_def)
    then have "\<bar>x\<bar> / ulp x = of_int (2 ^ 53) * pow2 e / pow2 (e + 1)"
      using \<open>\<bar>x\<bar> = of_int \<bar>m\<bar> * pow2 e\<close> meq by simp
    also have "\<dots> = of_int (2 ^ 52)"
      by (simp add: pow2_Suc)
    finally show ?thesis
      by blast
  qed
  then obtain n where n: "\<bar>x\<bar> / ulp x = of_int n"
    by blast
  then have ax: "of_int n * ulp x = \<bar>x\<bar>"
    by (simp add: field_simps)
  have "rndv x = sgn x * (of_int n * ulp x)"
    unfolding rndv_def n rne_of_int ..
  also have "\<dots> = sgn x * \<bar>x\<bar>"
    by (simp only: ax)
  also have "\<dots> = x"
    by (rule sgn_mult_abs)
  finally show ?thesis .
qed

lemma rne_abs_le:
  assumes "0 \<le> q" and "q \<le> of_int n"
  shows "\<bar>rne q\<bar> \<le> n"
  using rne_nonneg [OF assms(1)] rne_le_int [OF assms(2)] by simp

lemma rndv_abs: "\<bar>rndv x\<bar> = of_int (rne (\<bar>x\<bar> / ulp x)) * ulp x"
proof -
  have "0 \<le> rne (\<bar>x\<bar> / ulp x)"
    by (intro rne_nonneg) simp
  then have "\<bar>of_int (rne (\<bar>x\<bar> / ulp x)) :: real\<bar> = of_int (rne (\<bar>x\<bar> / ulp x))"
    by simp
  then show ?thesis
    by (cases "x = 0") (simp_all add: rndv_def abs_mult)
qed

lemma rndv_idem [simp]: "rndv (rndv x) = rndv x"
proof -
  define m where "m = rne (\<bar>x\<bar> / ulp x)"
  have "\<bar>x\<bar> / ulp x \<le> pow2 (expo x + 1) / ulp x"
    using expo_upper [of x] by (intro divide_right_mono) simp_all
  also have "\<dots> = pow2 53"
    unfolding ulp_def pow2_diff [symmetric] by simp
  finally have "\<bar>x\<bar> / ulp x \<le> of_int (2 ^ 53)"
    by (simp add: pow2_numeral)
  then have m: "\<bar>m\<bar> \<le> 2 ^ 53"
    unfolding m_def by (intro rne_abs_le) simp_all
  have "rndv x = of_int (if x < 0 then - m else m) * pow2 (expo x - 52)"
    by (cases "x = 0"; cases "x < 0") (simp_all add: rndv_def m_def ulp_def)
  moreover have "\<bar>if x < 0 then - m else m\<bar> \<le> 2 ^ 53"
    using m by simp
  moreover have "- 1074 \<le> expo x - 52"
    using expo_ge [of x] by simp
  ultimately show ?thesis
    by (rule rndv_exact)
qed

lemma rndv_error: "\<bar>rndv x - x\<bar> \<le> ulp x / 2"
proof -
  define q where "q = \<bar>x\<bar> / ulp x"
  have "\<bar>of_int (rne q) - q\<bar> \<le> 1 / 2"
    using rne_bounds [of q] by linarith
  then have "\<bar>of_int (rne q) - q\<bar> * ulp x \<le> 1 / 2 * ulp x"
    by (intro mult_right_mono) simp_all
  moreover have "\<bar>of_int (rne q) - q\<bar> * ulp x = \<bar>of_int (rne q) * ulp x - \<bar>x\<bar>\<bar>"
  proof -
    have "\<bar>of_int (rne q) - q\<bar> * ulp x = \<bar>(of_int (rne q) - q) * ulp x\<bar>"
      by (simp add: abs_mult)
    also have "(of_int (rne q) - q) * ulp x = of_int (rne q) * ulp x - \<bar>x\<bar>"
      by (simp add: q_def left_diff_distrib)
    finally show ?thesis .
  qed
  moreover have "\<bar>rndv x - x\<bar> = \<bar>of_int (rne q) * ulp x - \<bar>x\<bar>\<bar>"
  proof (cases "0 \<le> x")
    case True
    then show ?thesis
      by (simp add: rndv_pos_eq q_def)
  next
    case False
    then have "rndv x = - (of_int (rne q) * ulp x)"
      using rndv_pos_eq [of "- x"] by (simp add: rndv_minus q_def)
    then show ?thesis
      using False by simp
  qed
  ultimately show ?thesis
    by simp
qed

text \<open>The value that \<open>rnd\<close> returns.\<close>

lemma rnd_not_NaN [simp]: "rnd x \<noteq> NaN"
  by (simp add: rnd_def Let_def zero_def infinity_def)

lemma rnd_exact:
  assumes "x = of_int m * pow2 e" and "\<bar>m\<bar> \<le> 2 ^ 53" and "- 1074 \<le> e" and "\<bar>x\<bar> < huge"
  shows "rnd x = Num x"
  using rndv_exact [OF assms(1-3)] assms(4) by (simp add: rnd_def zero_def)

lemma rnd_int:
  assumes "\<bar>n\<bar> \<le> 2 ^ 53"
  shows "rnd (of_int n) = Num (of_int n)"
proof (rule rnd_exact [of _ n 0])
  have "\<bar>of_int n :: real\<bar> = of_int \<bar>n\<bar>"
    by simp
  also have "\<dots> \<le> of_int (2 ^ 53)"
    using assms by (simp only: of_int_le_iff)
  also have "\<dots> < huge"
    by (simp add: huge_def)
  finally show "\<bar>of_int n :: real\<bar> < huge" .
qed (use assms in simp_all)

lemma rnd_nat:
  assumes "real n \<le> 2 ^ 53"
  shows "rnd (real n) = Num (real n)"
proof -
  have "(of_int (int n) :: real) \<le> of_int (2 ^ 53)"
    using assms by simp
  then have "int n \<le> 2 ^ 53"
    by (simp only: of_int_le_iff)
  then have "rnd (of_int (int n)) = Num (of_int (int n))"
    by (intro rnd_int) simp
  then show ?thesis
    by simp
qed

lemma rnd_quarter:
  assumes "real n \<le> 2 ^ 53"
  shows "rnd (real n / 4) = Num (real n / 4)"
proof (rule rnd_exact [of _ "int n" "- 2"])
  show "real n / 4 = of_int (int n) * pow2 (- 2)"
    by (simp add: pow2_neg_numeral)
  have "(of_int (int n) :: real) \<le> of_int (2 ^ 53)"
    using assms by simp
  then have "int n \<le> 2 ^ 53"
    by (simp only: of_int_le_iff)
  then show "\<bar>int n\<bar> \<le> 2 ^ 53"
    by simp
  have "\<bar>real n / 4\<bar> \<le> 2 ^ 53"
    using assms by simp
  also have "(2 ^ 53 :: real) < huge"
    by (simp add: huge_def)
  finally show "\<bar>real n / 4\<bar> < huge" .
qed simp

lemma rnd_cases:
  obtains (overflow) "huge \<le> \<bar>rndv x\<bar>" "rnd x = infinity (x < 0)"
  | (zero) "rndv x = 0" "rnd x = zero (x < 0)"
  | (num) "rndv x \<noteq> 0" "\<bar>rndv x\<bar> < huge" "rnd x = Num (rndv x)"
  by (cases "huge \<le> \<bar>rndv x\<bar>"; cases "rndv x = 0") (auto simp: rnd_def Let_def huge_def)

lemma rnd_isDouble [simp]: "isDouble (rnd x)"
proof (cases x rule: rnd_cases)
  case overflow
  then show ?thesis
    by (simp add: infinity_def)
next
  case zero
  then show ?thesis
    by (auto simp: zero_def rnd_def)
next
  case num
  then show ?thesis
    by (auto simp: rnd_def Let_def zero_def infinity_def)
qed

subsection \<open>Comparisons\<close>

lemma huge_pos [simp]: "0 < huge"
  by (simp add: huge_def)

lemma js_lt_simps [simp]:
  "js_lt (Num x) (Num y) = (x < y)"
  "js_lt (Num x) NegZero = (x < 0)"
  "js_lt NegZero (Num y) = (0 < y)"
  "js_lt NegZero NegZero = False"
  "js_lt NaN b = False"
  "js_lt a NaN = False"
  "js_lt PInf b = False"
  "js_lt a NInf = False"
  "js_lt (Num x) PInf = True"
  "js_lt NegZero PInf = True"
  "js_lt NInf PInf = True"
  "js_lt NInf (Num y) = True"
  "js_lt NInf NegZero = True"
  by (simp_all add: js_lt_def)

lemma js_le_simps [simp]:
  "js_le (Num x) (Num y) = (x \<le> y)"
  "js_le (Num x) NegZero = (x \<le> 0)"
  "js_le NegZero (Num y) = (0 \<le> y)"
  "js_le NegZero NegZero = True"
  "js_le NaN b = False"
  "js_le a NaN = False"
  "js_le PInf PInf = True"
  "js_le NInf NInf = True"
  "js_le PInf (Num y) = False"
  "js_le PInf NegZero = False"
  "js_le PInf NInf = False"
  "js_le (Num x) NInf = False"
  "js_le NegZero NInf = False"
  "js_le (Num x) PInf = True"
  "js_le NegZero PInf = True"
  "js_le NInf PInf = True"
  "js_le NInf (Num y) = True"
  "js_le NInf NegZero = True"
  by (auto simp: js_le_def)

lemma js_le_refl: "a \<noteq> NaN \<Longrightarrow> js_le a a"
  by (cases a) simp_all

lemma js_le_trans: "js_le a b \<Longrightarrow> js_le b c \<Longrightarrow> js_le a c"
  by (cases a; cases b; cases c) simp_all

lemma js_lt_le_trans: "js_lt a b \<Longrightarrow> js_le b c \<Longrightarrow> js_lt a c"
  by (cases a; cases b; cases c) simp_all

lemma js_le_lt_trans: "js_le a b \<Longrightarrow> js_lt b c \<Longrightarrow> js_lt a c"
  by (cases a; cases b; cases c) simp_all

lemma js_lt_imp_le: "js_lt a b \<Longrightarrow> js_le a b"
  by (cases a; cases b) simp_all

lemma js_le_total: "a \<noteq> NaN \<Longrightarrow> b \<noteq> NaN \<Longrightarrow> js_le a b \<or> js_le b a"
  by (cases a; cases b) auto

lemma js_not_lt: "a \<noteq> NaN \<Longrightarrow> b \<noteq> NaN \<Longrightarrow> (\<not> js_lt a b) = js_le b a"
  by (simp add: js_le_def)

lemma not_huge_le_0 [simp]: "\<not> huge \<le> 0"
  using huge_pos by linarith

lemma rnd_0 [simp]: "rnd 0 = Num 0"
  by (simp add: rnd_def zero_def)

lemma rnd_mono:
  assumes "x \<le> y"
  shows "js_le (rnd x) (rnd y)"
proof -
  have hp: "\<not> huge \<le> 0"
    by simp
  have r: "rndv x \<le> rndv y"
    using assms by (rule rndv_mono)
  have sx: "x < 0 \<Longrightarrow> rndv x \<le> 0" and sy: "\<not> y < 0 \<Longrightarrow> 0 \<le> rndv y"
    and sx': "\<not> x < 0 \<Longrightarrow> 0 \<le> rndv x" and sy': "y < 0 \<Longrightarrow> rndv y \<le> 0"
    using rndv_nonpos [of x] rndv_nonneg [of y] rndv_nonneg [of x] rndv_nonpos [of y]
    by simp_all
  show ?thesis
  proof (cases x rule: rnd_cases)
    case overflow
    note ox = this
    show ?thesis
    proof (cases y rule: rnd_cases)
      case overflow
      then show ?thesis
        using ox assms huge_pos by (cases "x < 0"; cases "y < 0") (auto simp: infinity_def)
    next
      case zero
      then show ?thesis
        using ox r sx sx' huge_pos by (cases "x < 0"; cases "y < 0") (auto simp: infinity_def zero_def)
    next
      case num
      then show ?thesis
        using ox r sx sx' huge_pos by (cases "x < 0"; cases "y < 0") (auto simp: infinity_def)
    qed
  next
    case zero
    note zx = this
    show ?thesis
    proof (cases y rule: rnd_cases)
      case overflow
      then show ?thesis
        using zx r sy sy' huge_pos by (cases "x < 0"; cases "y < 0") (auto simp: infinity_def zero_def)
    next
      case zero
      then show ?thesis
        using zx huge_pos by (cases "x < 0"; cases "y < 0") (auto simp: zero_def)
    next
      case num
      then show ?thesis
        using zx r huge_pos by (cases "x < 0"; cases "y < 0") (auto simp: zero_def)
    qed
  next
    case num
    note nx = this
    show ?thesis
    proof (cases y rule: rnd_cases)
      case overflow
      then show ?thesis
        using nx r sy sy' huge_pos by (cases "x < 0"; cases "y < 0") (auto simp: infinity_def)
    next
      case zero
      then show ?thesis
        using nx r huge_pos by (cases "x < 0"; cases "y < 0") (auto simp: zero_def)
    next
      case num
      then show ?thesis
        using nx r by simp
    qed
  qed
qed

lemma rnd_nonneg: "0 \<le> x \<Longrightarrow> js_le (Num 0) (rnd x)"
proof -
  assume "0 \<le> x"
  then have "js_le (rnd 0) (rnd x)"
    by (rule rnd_mono)
  then show ?thesis
    by simp
qed

lemma rnd_nonpos: "x \<le> 0 \<Longrightarrow> js_le (rnd x) (Num 0)"
proof -
  assume "x \<le> 0"
  then have "js_le (rnd x) (rnd 0)"
    by (rule rnd_mono)
  then show ?thesis
    by simp
qed

subsection \<open>Evaluating a rounding\<close>

lemma rnd_eval:
  assumes lo: "pow2 e \<le> \<bar>x\<bar>" and hi: "\<bar>x\<bar> < pow2 (e + 1)" and e: "- 1022 \<le> e"
    and m: "rne (\<bar>x\<bar> / pow2 (e - 52)) = m" and r: "r = sgn x * (of_int m * pow2 (e - 52))"
    and nz: "r \<noteq> 0" and fin: "\<bar>r\<bar> < huge"
  shows "rnd x = Num r"
proof -
  have "expo x = e"
    using lo hi e by (rule expo_eq)
  then have "rndv x = r"
    using m r by (simp add: rndv_def ulp_def)
  then show ?thesis
    using nz fin by (simp add: rnd_def)
qed

lemma rne_eval:
  assumes "of_int n \<le> q" and "q < of_int n + 1"
    and "c = (if q - of_int n < 1 / 2 then n else if 1 / 2 < q - of_int n then n + 1
              else if even n then n else n + 1)"
  shows "rne q = c"
proof -
  have "\<lfloor>q\<rfloor> = n"
    using assms(1,2) by (intro floor_unique) simp_all
  then show ?thesis
    using assms(3) by (simp add: rne_def)
qed

subsection \<open>The literals of the source\<close>

lemma lit_tenth: "lit (1 / 10) = Num (3602879701896397 / 2 ^ 55)"
  unfolding lit_def
  apply (rule rnd_eval [where e = "- 4" and m = 7205759403792794])
        apply (simp_all add: pow2_neg_numeral pow2_numeral huge_def)
  apply (rule rne_eval [where n = 7205759403792793])
    apply simp_all
  done

lemma lit_1e4: "lit (1 / 10 ^ 4) = Num (7378697629483821 / 2 ^ 66)"
  unfolding lit_def
  apply (rule rnd_eval [where e = "- 14" and m = 7378697629483821])
        apply (simp_all add: pow2_neg_numeral pow2_numeral huge_def)
  apply (rule rne_eval [where n = 7378697629483820])
    apply simp_all
  done

lemma lit_1e9: "lit (1 / 10 ^ 9) = Num (4835703278458517 / 2 ^ 82)"
  unfolding lit_def
  apply (rule rnd_eval [where e = "- 30" and m = 4835703278458517])
        apply (simp_all add: pow2_neg_numeral pow2_numeral huge_def)
  apply (rule rne_eval [where n = 4835703278458516])
    apply simp_all
  done

lemma lit_1e6: "lit (1 / 10 ^ 6) = Num (4722366482869645 / 2 ^ 72)"
  unfolding lit_def
  apply (rule rnd_eval [where e = "- 20" and m = 4722366482869645])
        apply (simp_all add: pow2_neg_numeral pow2_numeral huge_def)
  apply (rule rne_eval [where n = 4722366482869645])
    apply simp_all
  done

lemma lit_1e12: "lit (1 / 10 ^ 12) = Num (4951760157141521 / 2 ^ 92)"
  unfolding lit_def
  apply (rule rnd_eval [where e = "- 40" and m = 4951760157141521])
        apply (simp_all add: pow2_neg_numeral pow2_numeral huge_def)
  apply (rule rne_eval [where n = 4951760157141521])
    apply simp_all
  done

lemma epsilon_eq: "epsilon = Num (4835703278458517 / 2 ^ 82)"
  by (simp only: epsilon_def lit_1e9)

subsection \<open>Arithmetic on finite doubles\<close>

lemma zero_simps [simp]:
  "zero False = Num 0" "zero True = NegZero"
  "val (zero s) = 0" "isFinite (zero s)" "zero s \<noteq> NaN" "zero s \<noteq> PInf" "zero s \<noteq> NInf"
  by (simp_all add: zero_def)

lemma infinity_simps [simp]:
  "infinity False = PInf" "infinity True = NInf"
  "\<not> isFinite (infinity s)" "infinity s \<noteq> NaN"
  "infinity s \<noteq> Num x" "infinity s \<noteq> NegZero"
  by (simp_all add: infinity_def)

lemma jadd_Num: "jadd (Num x) (Num y) = (if x + y = 0 then Num 0 else rnd (x + y))"
proof (cases "x + y = 0")
  case True
  then have "zero (x < 0 \<and> y < 0) = Num 0"
    by (cases "x < 0"; cases "y < 0") simp_all
  then show ?thesis
    using True by (simp add: jadd_def)
next
  case False
  then show ?thesis
    by (simp add: jadd_def)
qed

lemma jadd_Num_1:
  assumes "real i + 1 \<le> 2 ^ 53"
  shows "jadd (Num (real i)) (Num 1) = Num (real (i + 1))"
proof -
  have "real (i + 1) \<le> 2 ^ 53"
    using assms by simp
  then have "rnd (real (i + 1)) = Num (real (i + 1))"
    by (rule rnd_nat)
  moreover have "real i + 1 \<noteq> 0"
    by (simp add: add_nonneg_eq_0_iff)
  ultimately show ?thesis
    by (simp add: jadd_Num add.commute)
qed

lemma jadd_quarter:
  assumes "real k + 1 \<le> 2 ^ 53"
  shows "jadd (Num (real k / 4)) dt = Num (real (k + 1) / 4)"
proof -
  have "real (k + 1) \<le> 2 ^ 53"
    using assms by simp
  then have "rnd (real (k + 1) / 4) = Num (real (k + 1) / 4)"
    by (rule rnd_quarter)
  moreover have e: "real k / 4 + 0.25 = real (k + 1) / 4"
    by (simp add: field_simps)
  moreover have "real k / 4 + 0.25 \<noteq> 0"
    unfolding e by simp
  ultimately show ?thesis
    by (simp only: jadd_Num dt_def if_False)
qed

subsection \<open>The clamped parameters\<close>

lemma parseFloat_cases:
  "parseFloat a = a \<or> (a = NegZero \<and> parseFloat a = Num 0)"
  by (cases a) simp_all

lemma clamp_lower:
  assumes "0 < c"
  shows "js_le (Num c) (jmax (Num c) (orElse (parseFloat a) (Num c)))"
    and "js_lt (Num 0) (jmax (Num c) (orElse (parseFloat a) (Num c)))"
    and "jmax (Num c) (orElse (parseFloat a) (Num c)) \<noteq> NaN"
    and "jmax (Num c) (orElse (parseFloat a) (Num c)) \<noteq> NInf"
    and "jmax (Num c) (orElse (parseFloat a) (Num c)) \<noteq> NegZero"
  using assms by (cases a; auto simp: jmax_def orElse_def)+

lemma clamp_dose:
  "js_le (Num 0) (jmax (Num 0) (orElse (parseFloat a) (Num 0)))"
  "jmax (Num 0) (orElse (parseFloat a) (Num 0)) \<noteq> NaN"
  "jmax (Num 0) (orElse (parseFloat a) (Num 0)) \<noteq> NInf"
  "jmax (Num 0) (orElse (parseFloat a) (Num 0)) \<noteq> NegZero"
  by (cases a; auto simp: jmax_def orElse_def)+

lemma clamp_F:
  "js_le (Num 0) (jmin (Num 1) (jmax (Num 0) (orElse (parseFloat a) (Num 0))))"
  "js_le (jmin (Num 1) (jmax (Num 0) (orElse (parseFloat a) (Num 0)))) (Num 1)"
  "\<exists>x. jmin (Num 1) (jmax (Num 0) (orElse (parseFloat a) (Num 0))) = Num x \<and> 0 \<le> x \<and> x \<le> 1"
  by (cases a; auto simp: jmin_def jmax_def orElse_def)+

lemma signed_cases: "signed s m = NegZero \<or> (\<exists>y. signed s m = Num y)"
  by (auto simp: signed_def zero_def)

lemma nDose_Num: "\<exists>x. nDose L st = Num x \<and> 1 \<le> x"
proof -
  have "parseInt L (numberOfDoses st) = NaN \<or> parseInt L (numberOfDoses st) = NegZero
        \<or> (\<exists>y. parseInt L (numberOfDoses st) = Num y)"
    using signed_cases by (cases "numberOfDoses st") auto
  then show ?thesis
    by (auto simp: nDose_def jmax_def orElse_def)
qed

lemma intv_bounds:
  "js_le (lit (1 / 10)) (intv st)" "js_lt (Num 0) (intv st)" "js_le (Num 0.1) (intv st)"
  "intv st \<noteq> NaN" "intv st \<noteq> NInf" "intv st \<noteq> NegZero"
proof -
  define c :: real where "c = 3602879701896397 / 2 ^ 55"
  have c: "0 < c" "0.1 \<le> c"
    by (simp_all add: c_def)
  have l: "lit (1 / 10) = Num c"
    by (simp only: lit_tenth c_def)
  note cl = clamp_lower [OF c(1), of "dosingInterval st"]
  show "js_le (lit (1 / 10)) (intv st)"
    unfolding intv_def l by (rule cl(1))
  show "js_lt (Num 0) (intv st)"
    unfolding intv_def l by (rule cl(2))
  show "intv st \<noteq> NaN"
    unfolding intv_def l by (rule cl(3))
  show "intv st \<noteq> NInf"
    unfolding intv_def l by (rule cl(4))
  show "intv st \<noteq> NegZero"
    unfolding intv_def l by (rule cl(5))
  have "js_le (Num 0.1) (Num c)"
    using c(2) by simp
  then show "js_le (Num 0.1) (intv st)"
    using cl(1) unfolding intv_def l by (rule js_le_trans)
qed

lemma numericV_bounds:
  "js_le (lit (1 / 10 ^ 4)) (numericV st)" "js_lt (Num 0) (numericV st)"
  "js_le (Num 0.0001) (numericV st)"
  "numericV st \<noteq> NaN" "numericV st \<noteq> NInf" "numericV st \<noteq> NegZero"
proof -
  define c :: real where "c = 7378697629483821 / 2 ^ 66"
  have c: "0 < c" "0.0001 \<le> c"
    by (simp_all add: c_def)
  have l: "lit (1 / 10 ^ 4) = Num c"
    by (simp only: lit_1e4 c_def)
  note cl = clamp_lower [OF c(1), of "volume st"]
  show "js_le (lit (1 / 10 ^ 4)) (numericV st)"
    unfolding numericV_def l by (rule cl(1))
  show "js_lt (Num 0) (numericV st)"
    unfolding numericV_def l by (rule cl(2))
  show "numericV st \<noteq> NaN"
    unfolding numericV_def l by (rule cl(3))
  show "numericV st \<noteq> NInf"
    unfolding numericV_def l by (rule cl(4))
  show "numericV st \<noteq> NegZero"
    unfolding numericV_def l by (rule cl(5))
  have "js_le (Num 0.0001) (Num c)"
    using c(2) by simp
  then show "js_le (Num 0.0001) (numericV st)"
    using cl(1) unfolding numericV_def l by (rule js_le_trans)
qed

lemma rate_bounds:
  "js_le epsilon (jmax epsilon (orElse (parseFloat a) epsilon))"
  "js_lt (Num 0) (jmax epsilon (orElse (parseFloat a) epsilon))"
  "js_le (Num (1 / 10 ^ 9)) (jmax epsilon (orElse (parseFloat a) epsilon))"
  "jmax epsilon (orElse (parseFloat a) epsilon) \<noteq> NaN"
  "jmax epsilon (orElse (parseFloat a) epsilon) \<noteq> NInf"
  "jmax epsilon (orElse (parseFloat a) epsilon) \<noteq> NegZero"
proof -
  define c :: real where "c = 4835703278458517 / 2 ^ 82"
  have c: "0 < c" "1 / 10 ^ 9 \<le> c"
    by (simp_all add: c_def)
  have l: "epsilon = Num c"
    by (simp only: epsilon_eq c_def)
  note cl = clamp_lower [OF c(1), of a]
  show "js_le epsilon (jmax epsilon (orElse (parseFloat a) epsilon))"
    unfolding l by (rule cl(1))
  show "js_lt (Num 0) (jmax epsilon (orElse (parseFloat a) epsilon))"
    unfolding l by (rule cl(2))
  show "jmax epsilon (orElse (parseFloat a) epsilon) \<noteq> NaN"
    unfolding l by (rule cl(3))
  show "jmax epsilon (orElse (parseFloat a) epsilon) \<noteq> NInf"
    unfolding l by (rule cl(4))
  show "jmax epsilon (orElse (parseFloat a) epsilon) \<noteq> NegZero"
    unfolding l by (rule cl(5))
  have "js_le (Num (1 / 10 ^ 9)) (Num c)"
    using c(2) by simp
  then show "js_le (Num (1 / 10 ^ 9)) (jmax epsilon (orElse (parseFloat a) epsilon))"
    using cl(1) unfolding l by (rule js_le_trans)
qed

lemma numericKe_bounds:
  "js_le epsilon (numericKe st)" "js_lt (Num 0) (numericKe st)"
  "js_le (Num (1 / 10 ^ 9)) (numericKe st)"
  "numericKe st \<noteq> NaN" "numericKe st \<noteq> NInf" "numericKe st \<noteq> NegZero"
  unfolding numericKe_def by (rule rate_bounds)+

lemma numericKa_bounds:
  "js_le epsilon (numericKa st)" "js_lt (Num 0) (numericKa st)"
  "js_le (Num (1 / 10 ^ 9)) (numericKa st)"
  "numericKa st \<noteq> NaN" "numericKa st \<noteq> NInf" "numericKa st \<noteq> NegZero"
  unfolding numericKa_def by (rule rate_bounds)+

lemma numericDose_bounds:
  "js_le (Num 0) (numericDose st)" "numericDose st \<noteq> NaN" "numericDose st \<noteq> NInf"
  "numericDose st \<noteq> NegZero"
  unfolding numericDose_def by (rule clamp_dose)+

lemma numericF_bounds:
  "js_le (Num 0) (numericF st)" "js_le (numericF st) (Num 1)"
  "\<exists>x. numericF st = Num x \<and> 0 \<le> x \<and> x \<le> 1"
  unfolding numericF_def by (rule clamp_F)+

subsection \<open>The superposition loop\<close>

lemma dosesLoop_run:
  assumes N: "real N \<le> 2 ^ 53" and below: "\<forall>j<N. js_lt (Num (real j)) n"
    and stop: "\<not> js_lt (Num (real N)) n"
  shows "i \<le> N \<Longrightarrow>
    dosesLoop t single tau n (Num (real i)) totalAcc
      = Some (foldl (doseStep t single tau) totalAcc [i..<N])"
proof (induction "N - i" arbitrary: i totalAcc)
  case 0
  then have "i = N"
    by simp
  then show ?case
    using stop by (subst dosesLoop.simps) simp
next
  case (Suc d)
  then have lt: "i < N"
    by simp
  then have cond: "js_lt (Num (real i)) n"
    using below by simp
  have "real i + 1 \<le> real N"
    using lt by (simp add: of_nat_less_iff [symmetric] del: of_nat_less_iff)
  then have next_i: "jadd (Num (real i)) (Num 1) = Num (real (i + 1))"
    using N by (intro jadd_Num_1) linarith
  have ih: "dosesLoop t single tau n (Num (real (i + 1))) acc'
      = Some (foldl (doseStep t single tau) acc' [i + 1..<N])" for acc'
    using Suc lt by (intro Suc.hyps(1)) simp_all
  have split: "[i..<N] = i # [i + 1..<N]"
    using lt by (simp add: upt_conv_Cons)
  show ?case
    by (subst dosesLoop.simps) (simp only: cond if_True next_i ih split foldl_Cons doseStep_def)
qed

lemma calculateMultipleDoses_Num:
  assumes "x \<le> 2 ^ 53"
  shows "calculateMultipleDoses t single tau (Num x)
    = Some (foldl (doseStep t single tau) (Num 0) [0..<rounds (Num x)])"
proof -
  define N where "N = nat \<lceil>x\<rceil>"
  have "\<lceil>x\<rceil> \<le> 2 ^ 53"
    using assms by (simp add: ceiling_le_iff)
  then have N: "real N \<le> 2 ^ 53"
    unfolding N_def by (cases "0 \<le> \<lceil>x\<rceil>") simp_all
  have below: "\<forall>j<N. js_lt (Num (real j)) (Num x)"
  proof (intro allI impI)
    fix j
    assume "j < N"
    then have "int j < \<lceil>x\<rceil>"
      by (simp add: N_def)
    then have "real j < x"
      by (simp add: less_ceiling_iff)
    then show "js_lt (Num (real j)) (Num x)"
      by simp
  qed
  have "x \<le> real_of_int \<lceil>x\<rceil>"
    by (rule le_of_int_ceiling)
  also have "\<dots> \<le> real N"
    by (simp add: N_def)
  finally have stop: "\<not> js_lt (Num (real N)) (Num x)"
    by simp
  have "dosesLoop t single tau (Num x) (Num (real 0)) (Num 0)
      = Some (foldl (doseStep t single tau) (Num 0) [0..<N])"
    using N below stop by (rule dosesLoop_run) simp
  then show ?thesis
    by (simp add: calculateMultipleDoses_def rounds_def N_def)
qed

lemma concentrationAt_returns:
  assumes "js_le (nDose L st) (Num (2 ^ 53))"
  shows "\<exists>c. concentrationAt L st t = Some c"
proof -
  obtain x where x: "nDose L st = Num x"
    using nDose_Num by blast
  with assms have "x \<le> 2 ^ 53"
    by simp
  then show ?thesis
    by (cases "administrationType st")
      (simp_all add: concentrationAt_def Let_def x calculateMultipleDoses_Num)
qed

lemma sampleAt_returns:
  assumes "js_le (nDose L st) (Num (2 ^ 53))"
  shows "\<exists>s. sampleAt L st t = Some s"
  using concentrationAt_returns [OF assms, of t] by (auto simp: sampleAt_def)

subsection \<open>The sampling loop\<close>

lemma nat_quarter_le:
  assumes "0 \<le> b"
  shows "real k / 4 \<le> b \<longleftrightarrow> k \<le> nat \<lfloor>4 * b\<rfloor>"
proof -
  have "real k / 4 \<le> b \<longleftrightarrow> of_int (int k) \<le> 4 * b"
    by (simp add: field_simps)
  also have "\<dots> \<longleftrightarrow> int k \<le> \<lfloor>4 * b\<rfloor>"
    by (rule le_floor_iff [symmetric])
  also have "\<dots> \<longleftrightarrow> k \<le> nat \<lfloor>4 * b\<rfloor>"
    using assms by (simp add: le_nat_iff)
  finally show ?thesis .
qed

lemma simLoop_run:
  assumes n: "js_le (nDose L st) (Num (2 ^ 53))"
    and B: "loopBound L st = Num b" and b0: "0 \<le> b" and b: "b < 2 ^ 51"
  shows "k \<le> lastIndex L st + 1 \<Longrightarrow>
    simLoop L st (Num (real k / 4)) timePoints
      = Some (timePoints @ map (\<lambda>j. the (sampleAt L st (Num (real j / 4))))
                              [k..<lastIndex L st + 1])"
proof (induction "lastIndex L st + 1 - k" arbitrary: k timePoints)
  case 0
  then have k: "k = lastIndex L st + 1"
    by simp
  then have "\<not> k \<le> nat \<lfloor>4 * b\<rfloor>"
    by (simp add: lastIndex_def B)
  then have "\<not> js_le (Num (real k / 4)) (loopBound L st)"
    using nat_quarter_le [OF b0, of k] by (simp add: B)
  then show ?case
    using k by (subst simLoop.simps) (simp add: loopBound_def)
next
  case (Suc d)
  then have lt: "k \<le> lastIndex L st"
    by simp
  then have "k \<le> nat \<lfloor>4 * b\<rfloor>"
    by (simp add: lastIndex_def B)
  then have kb: "real k / 4 \<le> b"
    using nat_quarter_le [OF b0, of k] by simp
  then have cond: "js_le (Num (real k / 4)) (jadd (maxTime L st) (lit (1 / 10 ^ 9)))"
    using B by (simp add: loopBound_def)
  obtain s where s: "sampleAt L st (Num (real k / 4)) = Some s"
    using sampleAt_returns [OF n] by blast
  have "real k \<le> 4 * b"
    using kb by simp
  also have "\<dots> < 4 * 2 ^ 51"
    using b by simp
  finally have "real k + 1 \<le> 2 ^ 53"
    by simp
  then have next_t: "jadd (Num (real k / 4)) dt = Num (real (k + 1) / 4)"
    by (rule jadd_quarter)
  have ih: "simLoop L st (Num (real (k + 1) / 4)) tp
      = Some (tp @ map (\<lambda>j. the (sampleAt L st (Num (real j / 4))))
                       [k + 1..<lastIndex L st + 1])" for tp
    using Suc lt by (intro Suc.hyps(1)) simp_all
  have split: "[k..<lastIndex L st + 1] = k # [k + 1..<lastIndex L st + 1]"
    using lt by (simp add: upt_conv_Cons)
  show ?case
    by (subst simLoop.simps) (simp only: cond if_True s option.case next_t ih split, simp add: s)
qed

lemma simulatePK_run:
  assumes "js_le (nDose L st) (Num (2 ^ 53))"
    and "loopBound L st = Num b" and "0 \<le> b" and "b < 2 ^ 51"
  shows "simulatePK L st
    = Some (map (\<lambda>j. the (sampleAt L st (Num (real j / 4)))) [0..<lastIndex L st + 1])"
  using simLoop_run [OF assms, of 0 "[]"] by (simp add: simulatePK_def)


lemma mkSample_fields [simp]:
  "concentration (mkSample st t c) = c"
  "s_therapeuticMin (mkSample st t c) = therapeuticMin st"
  "s_therapeuticMax (mkSample st t c) = therapeuticMax st"
  "inRange (mkSample st t c) = (js_ge c (therapeuticMin st) \<and> js_le c (therapeuticMax st))"
  "time (mkSample st t c) = Number (toFixed 2 t)"
  "status (mkSample st t c) = (if js_lt c (therapeuticMin st) then Subtherapeutic
                                else if js_gt c (therapeuticMax st) then Toxic
                                else Therapeutic)"
  by (simp_all add: mkSample_def)

text \<open>Whatever the loop returns was made by \<open>mkSample\<close>.\<close>

lemma simLoop_samples:
  assumes "simLoop L st t timePoints = Some ss"
  shows "(\<forall>s \<in> set timePoints. \<exists>t' c. s = mkSample st t' c)
    \<longrightarrow> (\<forall>s \<in> set ss. \<exists>t' c. s = mkSample st t' c)"
proof (rule simLoop.raw_induct
    [where P = "\<lambda>L st t tp ss. (\<forall>s \<in> set tp. \<exists>t' c. s = mkSample st t' c)
        \<longrightarrow> (\<forall>s \<in> set ss. \<exists>t' c. s = mkSample st t' c)",
      OF _ assms])
  fix simLoop' L' st' t tp ss'
  assume IH: "\<And>L st t tp ss. simLoop' L st t tp = Some ss \<Longrightarrow>
      (\<forall>s \<in> set tp. \<exists>t' c. s = mkSample st t' c)
        \<longrightarrow> (\<forall>s \<in> set ss. \<exists>t' c. s = mkSample st t' c)"
    and res: "(if js_le t (jadd (maxTime L' st') (lit (1 / 10 ^ 9)))
              then case sampleAt L' st' t of None \<Rightarrow> None
                   | Some s \<Rightarrow> simLoop' L' st' (jadd t dt) (tp @ [s])
              else Some tp) = Some ss'"
  show "(\<forall>s \<in> set tp. \<exists>t' c. s = mkSample st' t' c)
      \<longrightarrow> (\<forall>s \<in> set ss'. \<exists>t' c. s = mkSample st' t' c)"
  proof (intro impI)
    assume inv: "\<forall>s \<in> set tp. \<exists>t' c. s = mkSample st' t' c"
    show "\<forall>s \<in> set ss'. \<exists>t' c. s = mkSample st' t' c"
    proof (cases "js_le t (jadd (maxTime L' st') (lit (1 / 10 ^ 9)))")
      case False
      then have "ss' = tp"
        using res by simp
      then show ?thesis
        using inv by blast
    next
      case True
      then obtain s0 where s0: "sampleAt L' st' t = Some s0"
        and rec: "simLoop' L' st' (jadd t dt) (tp @ [s0]) = Some ss'"
        using res by (auto split: option.splits)
      have "\<exists>t' c. s0 = mkSample st' t' c"
        using s0 by (auto simp: sampleAt_def)
      then have "\<forall>s \<in> set (tp @ [s0]). \<exists>t' c. s = mkSample st' t' c"
        using inv by auto
      then show ?thesis
        using IH [OF rec] by blast
    qed
  qed
qed

lemma simulatePK_samples:
  assumes "simulatePK L st = Some ss" and "s \<in> set ss"
  shows "\<exists>t c. s = mkSample st t c"
  using simLoop_samples [of L st "Num 0" "[]" ss] assms by (simp add: simulatePK_def)

subsection \<open>The parameters of the example states\<close>

lemma parseInt_pos:
  assumes "1 \<le> x" and "x < 10 ^ 21"
  shows "parseInt L (Num x) = Num (of_int \<lfloor>x\<rfloor>)"
proof -
  have "val (lit (1 / 10 ^ 6)) \<le> 1"
    by (simp only: lit_1e6 val.simps) simp
  then have "val (lit (1 / 10 ^ 6)) \<le> \<bar>x\<bar>"
    using assms(1) by linarith
  moreover have "\<lfloor>x\<rfloor> \<noteq> 0"
    using assms(1) by (simp add: floor_eq_iff)
  moreover have "\<bar>x\<bar> = x" "x \<noteq> 0" "\<not> x < 0"
    using assms(1) by simp_all
  ultimately show ?thesis
    using assms(2) by (simp add: signed_def)
qed

lemma clamp_Num:
  assumes "0 < c" and "c \<le> x"
  shows "jmax (Num c) (orElse (parseFloat (Num x)) (Num c)) = Num x"
  using assms by (auto simp: jmax_def orElse_def)

lemma intv_Num:
  assumes "dosingInterval st = Num x" and "1 / 8 \<le> x"
  shows "intv st = Num x"
proof -
  have "(3602879701896397 / 2 ^ 55 :: real) \<le> 1 / 8"
    by simp
  then have "(3602879701896397 / 2 ^ 55 :: real) \<le> x"
    using assms(2) by linarith
  then have "jmax (Num (3602879701896397 / 2 ^ 55))
      (orElse (parseFloat (Num x)) (Num (3602879701896397 / 2 ^ 55))) = Num x"
    by (intro clamp_Num) simp_all
  then show ?thesis
    unfolding intv_def lit_tenth assms(1) .
qed

lemma nDose_NaN:
  assumes "numberOfDoses st = NaN"
  shows "nDose L st = Num 1"
  using assms by (simp add: nDose_def orElse_def jmax_def)

lemma nDose_Num_int:
  assumes "numberOfDoses st = Num (real n)" and "1 \<le> n" and "real n < 10 ^ 21"
  shows "nDose L st = Num (real n)"
proof -
  have "parseInt L (Num (real n)) = Num (of_int \<lfloor>real n\<rfloor>)"
    using assms(2,3) by (intro parseInt_pos) simp_all
  then have "parseInt L (numberOfDoses st) = Num (real n)"
    using assms(1) by simp
  then show ?thesis
    using assms(2) by (simp add: nDose_def orElse_def jmax_def)
qed

lemma jmul_Num: "jmul (Num x) (Num y)
    = (if x * y = 0 then zero ((x < 0) \<noteq> (y < 0)) else rnd (x * y))"
  by (simp add: jmul_def)

lemma jmax_Num: "jmax (Num x) (Num y) = (if x < y then Num y else Num x)"
  by (auto simp: jmax_def)

lemma rnd_8: "rnd (8) = Num (8)"
  apply (rule rnd_eval [where e = 3 and m = 4503599627370496])
        apply (simp_all add: pow2_neg_numeral pow2_numeral huge_def)
  apply (rule rne_eval [where n = 4503599627370496])
    apply simp_all
  done

lemma rnd_32: "rnd (32) = Num (32)"
  apply (rule rnd_eval [where e = 5 and m = 4503599627370496])
        apply (simp_all add: pow2_neg_numeral pow2_numeral huge_def)
  apply (rule rne_eval [where n = 4503599627370496])
    apply simp_all
  done

lemma rnd_bound32: "rnd (32 + 4835703278458517 / 2 ^ 82) = Num (4503599627511233 / 2 ^ 47)"
  apply (rule rnd_eval [where e = 5 and m = 4503599627511233])
        apply (simp_all add: pow2_neg_numeral pow2_numeral huge_def)
  apply (rule rne_eval [where n = 4503599627511233])
    apply simp_all
  done





lemma maxTime_eq:
  assumes "nDose L st = Num n" and "intv st = Num i" and "n * i \<noteq> 0"
    and "rnd (n * i) = Num p" and "p + 24 \<noteq> 0" and "rnd (p + 24) = Num h" and "24 \<le> h"
  shows "maxTime L st = Num h"
  using assms by (auto simp: maxTime_def jmul_Num jadd_Num jmax_Num)

lemma loopBound_eq:
  assumes "maxTime L st = Num h" and "0 < h" and "rnd (h + 4835703278458517 / 2 ^ 82) = Num b"
  shows "loopBound L st = Num b"
proof -
  have "h + 4835703278458517 / 2 ^ 82 \<noteq> 0"
    using assms(2) by (simp add: add_nonneg_eq_0_iff)
  then show ?thesis
    unfolding loopBound_def assms(1) lit_1e9 jadd_Num using assms(3) by simp
qed

lemma default_bound:
  assumes "nDose L st = Num 1" and "intv st = Num 8"
  shows "loopBound L st = Num (4503599627511233 / 2 ^ 47)"
proof -
  have "maxTime L st = Num 32"
    using assms
    by (rule maxTime_eq [where p = 8]) (simp_all add: rnd_8, simp add: rnd_32 [simplified])
  then show ?thesis
    by (rule loopBound_eq) (simp, rule rnd_bound32)
qed

lemma default_run:
  assumes "nDose L st = Num 1" and "intv st = Num 8"
  shows "simulatePK L st = Some (map (\<lambda>j. the (sampleAt L st (Num (real j / 4)))) [0..<129])"
proof -
  note B = default_bound [OF assms]
  have "lastIndex L st = 128"
    unfolding lastIndex_def B by simp
  moreover have "simulatePK L st
      = Some (map (\<lambda>j. the (sampleAt L st (Num (real j / 4)))) [0..<lastIndex L st + 1])"
    using B by (rule simulatePK_run [rotated]) (simp_all add: assms)
  ultimately show ?thesis
    by simp
qed

lemma sampleAt_mk:
  assumes "js_le (nDose L st) (Num (2 ^ 53))"
  shows "the (sampleAt L st t) = mkSample st t (the (concentrationAt L st t))"
  using concentrationAt_returns [OF assms, of t] by (auto simp: sampleAt_def)

lemma initial_params:
  "intv (initialState \<lparr> numberOfDoses := n \<rparr>) = Num 8"
  "intv (initialState \<lparr> therapeuticMin := a, therapeuticMax := b \<rparr>) = Num 8"
  "intv initialState = Num 8"
  "nDose L initialState = Num 1"
  "nDose L (initialState \<lparr> therapeuticMin := a, therapeuticMax := b \<rparr>) = Num 1"
  "nDose L (initialState \<lparr> numberOfDoses := NaN \<rparr>) = Num 1"
  by (simp_all add: intv_Num nDose_NaN nDose_Num_int [where n = 1] initialState_def)

subsection \<open>Small numbers are exact\<close>

lemma rnd_numeral:
  assumes "(numeral k :: real) \<le> 2 ^ 53"
  shows "rnd (numeral k) = Num (numeral k)"
  using rnd_nat [of "numeral k"] assms by simp

lemma rnd_neg_numeral:
  assumes "(numeral k :: real) \<le> 2 ^ 53"
  shows "rnd (- numeral k) = Num (- numeral k)"
proof -
  have "(of_int (numeral k) :: real) \<le> of_int (2 ^ 53)"
    using assms by simp
  then have "(numeral k :: int) \<le> 2 ^ 53"
    by (simp only: of_int_le_iff)
  then have "rnd (of_int (- numeral k)) = Num (of_int (- numeral k))"
    by (intro rnd_int) simp
  then show ?thesis
    by simp
qed

lemma rnd_1 [simp]: "rnd 1 = Num 1"
  using rnd_nat [of 1] by simp

lemma jsub_Num: "jsub (Num x) (Num y) = (if x - y = 0 then Num 0 else rnd (x - y))"
proof (cases "y = 0")
  case True
  then show ?thesis
    by (auto simp: jsub_def jadd_def)
next
  case False
  then show ?thesis
    by (simp add: jsub_def jadd_Num)
qed

lemma jdiv_Num: "y \<noteq> 0 \<Longrightarrow> jdiv (Num x) (Num y)
    = (if x = 0 then zero ((x < 0) \<noteq> (y < 0)) else rnd (x / y))"
  by (simp add: jdiv_def)

lemma upt_3: "[0..<3] = [0, 1, 2]"
  by code_simp

lemmas small_eval = jadd_Num jsub_Num jmul_Num jdiv_Num rnd_numeral rnd_neg_numeral js_ge_def

subsection \<open>The superposition loop as a sum\<close>

lemma foldl_doseStep:
  "foldl (doseStep t single tau) totalAcc js
    = foldl jadd totalAcc
        (map (\<lambda>i. single (jsub t (jmul (Num (real i)) tau)))
             (filter (\<lambda>i. js_ge t (jmul (Num (real i)) tau)) js))"
  by (induction js arbitrary: totalAcc) (simp_all add: doseStep_def Let_def)

lemma calculateMultipleDoses_run:
  assumes "n \<noteq> PInf" and "\<not> js_lt (Num (2 ^ 53)) n"
  shows "calculateMultipleDoses t single tau n
    = Some (foldl (doseStep t single tau) (Num 0) [0..<rounds n])"
proof (cases n)
  case (Num x)
  then have "x \<le> 2 ^ 53"
    using assms(2) by simp
  then show ?thesis
    unfolding Num by (rule calculateMultipleDoses_Num)
next
  case PInf
  then show ?thesis
    using assms(1) by simp
qed (simp_all add: calculateMultipleDoses_def rounds_def dosesLoop.simps)

lemma foldl_ones:
  assumes "real (k + n) \<le> 2 ^ 53"
  shows "foldl jadd (Num (real k)) (replicate n (Num 1)) = Num (real (k + n))"
  using assms
proof (induction n arbitrary: k)
  case 0
  then show ?case
    by simp
next
  case (Suc n)
  have "real k + 1 \<le> 2 ^ 53"
    using Suc.prems by simp
  then have "jadd (Num (real k)) (Num 1) = Num (real (k + 1))"
    by (rule jadd_Num_1)
  moreover have "foldl jadd (Num (real (k + 1))) (replicate n (Num 1)) = Num (real (k + 1 + n))"
    using Suc.prems by (intro Suc.IH) simp
  ultimately show ?case
    by simp
qed

lemma lit_11: "lit (11 / 10) = Num (2476979795053773 / 2 ^ 51)"
  unfolding lit_def
  apply (rule rnd_eval [where e = 0 and m = 4953959590107546])
        apply (simp_all add: pow2_neg_numeral pow2_numeral huge_def)
  apply (rule rne_eval [where n = 4953959590107545])
    apply simp_all
  done

lemma rnd_33: "rnd (30 * (2476979795053773 / 2 ^ 51)) = Num (33)"
  apply (rule rnd_eval [where e = 5 and m = 4644337115725824])
        apply (simp_all add: pow2_neg_numeral pow2_numeral huge_def)
  apply (rule rne_eval [where n = 4644337115725824])
    apply simp_all
  done

subsection \<open>The oral branch\<close>

lemma rndv_nonzero:
  assumes "pow2 (- 1022) \<le> \<bar>x\<bar>"
  shows "rndv x \<noteq> 0"
proof -
  have e: "rndv (pow2 (- 1022)) = pow2 (- 1022)"
    by (rule rndv_exact [of _ 1 "- 1022"]) simp_all
  have "pow2 (- 1022) \<le> \<bar>rndv x\<bar>"
  proof (cases "0 \<le> x")
    case True
    then have "rndv (pow2 (- 1022)) \<le> rndv x"
      using assms by (intro rndv_mono) simp
    then show ?thesis
      using e by linarith
  next
    case False
    then have "rndv (pow2 (- 1022)) \<le> rndv (- x)"
      using assms by (intro rndv_mono) simp
    then show ?thesis
      using e by (simp add: rndv_minus)
  qed
  then show ?thesis
    using pow2_pos [of "- 1022"] by auto
qed

lemma rnd_nonzero:
  assumes "pow2 (- 1022) \<le> \<bar>x\<bar>"
  shows "\<not> isZero (rnd x)"
proof -
  have "rndv x \<noteq> 0"
    using assms by (rule rndv_nonzero)
  then show ?thesis
    by (cases x rule: rnd_cases) (simp_all add: isZero_def)
qed

lemma divisor_nonzero:
  assumes V: "js_le (lit (1 / 10 ^ 4)) V" and d: "js_le (lit (1 / 10 ^ 6)) (jabs d)"
  shows "\<not> isZero (jmul V d) \<and> jmul V d \<noteq> NaN"
proof -
  define c4 :: real where "c4 = 7378697629483821 / 2 ^ 66"
  define c6 :: real where "c6 = 4722366482869645 / 2 ^ 72"
  have V': "js_le (Num c4) V"
    using V unfolding lit_1e4 c4_def .
  have d': "js_le (Num c6) (jabs d)"
    using d unfolding lit_1e6 c6_def .
  have pos: "0 < c4" "0 < c6"
    by (simp_all add: c4_def c6_def)
  show ?thesis
  proof (cases V)
    case (Num v)
    then have v: "c4 \<le> v"
      using V' by simp
    show ?thesis
    proof (cases d)
      case (Num x)
      then have x: "c6 \<le> \<bar>x\<bar>"
        using d' by simp
      have "c4 * c6 \<le> v * \<bar>x\<bar>"
        using v x pos by (intro mult_mono) simp_all
      moreover have "pow2 (- 1022) \<le> c4 * c6"
      proof -
        have "pow2 (- 1022) \<le> pow2 (- 40)"
          by simp
        also have "\<dots> \<le> c4 * c6"
          by (simp add: pow2_neg_numeral c4_def c6_def)
        finally show ?thesis .
      qed
      ultimately have big: "pow2 (- 1022) \<le> \<bar>v * x\<bar>"
        using v pos by (simp add: abs_mult)
      then have "v * x \<noteq> 0"
        using pow2_pos [of "- 1022"] by auto
      then have "jmul V d = rnd (v * x)"
        using \<open>V = Num v\<close> Num by (simp add: jmul_def)
      then show ?thesis
        using rnd_nonzero [OF big] by simp
    qed (use d' pos v \<open>V = Num v\<close> in \<open>auto simp: jmul_def isZero_def\<close>)
  next
    case PInf
    then show ?thesis
      using d' pos by (cases d) (auto simp: jmul_def isZero_def)
  qed (use V' pos in simp_all)
qed

lemma jsub_NaN_iff:
  assumes "a \<noteq> NaN" "a \<noteq> NInf" "b \<noteq> NaN" "b \<noteq> NInf"
  shows "jsub a b = NaN \<longleftrightarrow> a = PInf \<and> b = PInf"
  using assms by (cases a; cases b) (auto simp: jsub_def jadd_def)

lemma rnd_04: "rnd (1 / 2 - 3602879701896397 / 2 ^ 55) = Num (3602879701896397 / 2 ^ 53)"
  apply (rule rnd_eval [where e = "- 2" and m = 7205759403792794])
        apply (simp_all add: pow2_neg_numeral pow2_numeral huge_def)
  apply (rule rne_eval [where n = 7205759403792793])
    apply simp_all
  done

lemma rnd_c2_diff: "rnd (5511206944066899 / 2 ^ 71 - 6300047405264153 / 2 ^ 72) = Num (4722366482869645 / 2 ^ 72)"
  apply (rule rnd_eval [where e = "- 20" and m = 4722366482869645])
        apply (simp_all add: pow2_neg_numeral pow2_numeral huge_def)
  apply (rule rne_eval [where n = 4722366482869645])
    apply simp_all
  done

lemma rnd_1_d12: "rnd (1 + 4951760157141521 / 2 ^ 92) = Num (562949953421875 / 2 ^ 49)"
  apply (rule rnd_eval [where e = 0 and m = 4503599627375000])
        apply (simp_all add: pow2_neg_numeral pow2_numeral huge_def)
  apply (rule rne_eval [where n = 4503599627374999])
    apply simp_all
  done

subsection \<open>The peak\<close>

lemma exp_upper_Taylor:
  fixes x :: real
  assumes "0 \<le> x" and "x \<le> 2"
  shows "exp x \<le> (\<Sum>m<n. x ^ m / fact m) + 9 / fact n * x ^ n"
proof -
  obtain t where t: "\<bar>t\<bar> \<le> \<bar>x\<bar>" and eq: "exp x = (\<Sum>m<n. x ^ m / fact m) + exp t / fact n * x ^ n"
    using Maclaurin_exp_le [of x n] by blast
  have "t \<le> 2"
    using t assms by linarith
  then have "exp t \<le> exp 2"
    by simp
  also have "exp (2::real) = exp 1 * exp 1"
    by (simp add: exp_add [symmetric])
  also have "\<dots> \<le> 3 * 3"
    by (intro mult_mono exp_le) simp_all
  finally have "exp t \<le> 9"
    by simp
  then have "exp t / fact n * x ^ n \<le> 9 / fact n * x ^ n"
    using assms by (intro mult_right_mono divide_right_mono) simp_all
  with eq show ?thesis
    by linarith
qed

lemma exp_lower_Taylor:
  fixes x :: real
  assumes "0 \<le> x"
  shows "(\<Sum>m<n. x ^ m / fact m) \<le> exp x"
proof -
  obtain t where eq: "exp x = (\<Sum>m<n. x ^ m / fact m) + exp t / fact n * x ^ n"
    using Maclaurin_exp_le [of x n] by blast
  have "0 \<le> exp t / fact n * x ^ n"
    using assms by simp
  with eq show ?thesis
    by linarith
qed

lemma ln5_lower: "1609435 / 10 ^ 6 \<le> ln (5::real)"
proof -
  have "exp (1609435 / 10 ^ 6 :: real)
          \<le> (\<Sum>m<14. (1609435 / 10 ^ 6) ^ m / fact m) + 9 / fact 14 * (1609435 / 10 ^ 6) ^ 14"
    by (rule exp_upper_Taylor) simp_all
  also have "\<dots> \<le> 5"
    by (simp add: lessThan_nat_numeral fact_numeral power_divide)
  finally show ?thesis
    by (subst ln_ge_iff) simp_all
qed

lemma ln5_upper: "ln (5::real) \<le> 1609439 / 10 ^ 6"
proof -
  have "(5::real) \<le> (\<Sum>m<14. (1609439 / 10 ^ 6) ^ m / fact m)"
    by (simp add: lessThan_nat_numeral fact_numeral power_divide)
  also have "\<dots> \<le> exp (1609439 / 10 ^ 6)"
    by (rule exp_lower_Taylor) simp
  finally have "exp (ln 5) \<le> exp (1609439 / 10 ^ 6 :: real)"
    by simp
  then show ?thesis
    by (simp only: exp_le_cancel_iff)
qed

text \<open>A rounding between two doubles.\<close>

lemma rnd_between:
  assumes lo: "rnd a = Num a" and hi: "rnd b = Num b" and "a \<le> x" and "x \<le> b" and "0 < a"
  shows "\<exists>r. rnd x = Num r \<and> a \<le> r \<and> r \<le> b"
proof -
  have "js_le (Num a) (rnd x)" "js_le (rnd x) (Num b)"
    using rnd_mono [OF assms(3)] rnd_mono [OF assms(4)] lo hi by simp_all
  then show ?thesis
    using assms(5) by (cases "rnd x") auto
qed

lemma refLib_log5:
  "\<exists>l. Mlog refLib (Num 5) = Num l \<and> 160943 / 100000 \<le> l \<and> l \<le> 160944 / 100000"
proof -
  have a: "rnd (1687612 / 2 ^ 20) = Num (1687612 / 2 ^ 20)"
    by (rule rnd_exact [of _ 1687612 "- 20"]) (simp_all add: pow2_neg_numeral huge_def)
  have b: "rnd (1687620 / 2 ^ 20) = Num (1687620 / 2 ^ 20)"
    by (rule rnd_exact [of _ 1687620 "- 20"]) (simp_all add: pow2_neg_numeral huge_def)
  have "1687612 / 2 ^ 20 \<le> ln (5::real)"
    using ln5_lower by simp
  moreover have "ln (5::real) \<le> 1687620 / 2 ^ 20"
    using ln5_upper by simp
  ultimately obtain r where "rnd (ln 5) = Num r" "1687612 / 2 ^ 20 \<le> r" "r \<le> 1687620 / 2 ^ 20"
    using rnd_between [OF a b] by auto
  then show ?thesis
    by (auto simp: refLib_def)
qed

lemma rnd_5: "rnd (1 / 2 / (3602879701896397 / 2 ^ 55)) = Num (5)"
  apply (rule rnd_eval [where e = 2 and m = 5629499534213120])
        apply (simp_all add: pow2_neg_numeral pow2_numeral huge_def)
  apply (rule rne_eval [where n = 5629499534213119])
    apply simp_all
  done

lemma lit_04: "lit (2 / 5) = Num (3602879701896397 / 2 ^ 53)"
  unfolding lit_def
  apply (rule rnd_eval [where e = "- 2" and m = 7205759403792794])
        apply (simp_all add: pow2_neg_numeral pow2_numeral huge_def)
  apply (rule rne_eval [where n = 7205759403792793])
    apply simp_all
  done

lemma Tmax_digits:
  assumes "160943 / 100000 \<le> l" and "l \<le> 160944 / 100000"
  shows "toFixed 3 (jdiv (Num l) (Num (3602879701896397 / 2 ^ 53))) = Decimal False 4024 3"
proof -
  define c :: real where "c = 3602879701896397 / 2 ^ 53"
  have c: "0 < c"
    by (simp add: c_def)
  have a: "rnd (263685 / 2 ^ 16) = Num (263685 / 2 ^ 16)"
    by (rule rnd_exact [of _ 263685 "- 16"]) (simp_all add: pow2_neg_numeral huge_def)
  have b: "rnd (263749 / 2 ^ 16) = Num (263749 / 2 ^ 16)"
    by (rule rnd_exact [of _ 263749 "- 16"]) (simp_all add: pow2_neg_numeral huge_def)
  have "263685 / 2 ^ 16 * c \<le> 160943 / 100000"
    by (simp add: c_def)
  then have "263685 / 2 ^ 16 * c \<le> l"
    using assms(1) by linarith
  then have lo: "263685 / 2 ^ 16 \<le> l / c"
    using c by (simp add: pos_le_divide_eq)
  have "160944 / 100000 \<le> 263749 / 2 ^ 16 * c"
    by (simp add: c_def)
  then have "l \<le> 263749 / 2 ^ 16 * c"
    using assms(2) by linarith
  then have hi: "l / c \<le> 263749 / 2 ^ 16"
    using c by (simp add: pos_divide_le_eq)
  obtain r where r: "rnd (l / c) = Num r" "263685 / 2 ^ 16 \<le> r" "r \<le> 263749 / 2 ^ 16"
    using rnd_between [OF a b lo hi] by auto
  have "l \<noteq> 0"
    using assms(1) by auto
  then have q: "jdiv (Num l) (Num c) = Num r"
    using c r(1) by (simp add: jdiv_def)
  have "\<lfloor>\<bar>r\<bar> * 10 ^ 3 + 1 / 2\<rfloor> = 4024"
    using r(2,3) by (simp add: floor_eq_iff)
  moreover have "\<bar>r\<bar> < 10 ^ 21" "\<not> r < 0"
    using r(2,3) by simp_all
  ultimately have "toFixed 3 (Num r) = Decimal False 4024 3"
    by (simp add: toFixed_def)
  then show ?thesis
    using q by (simp only: c_def)
qed

lemma initial_rates:
  assumes "ke st = lit (1 / 10)" and "ka st = Num 0.5"
  shows "numericKe st = lit (1 / 10)" and "numericKa st = Num 0.5"
proof -
  have "jmax (Num (4835703278458517 / 2 ^ 82))
      (orElse (parseFloat (Num (3602879701896397 / 2 ^ 55))) (Num (4835703278458517 / 2 ^ 82)))
      = Num (3602879701896397 / 2 ^ 55)"
    by (rule clamp_Num) simp_all
  then show "numericKe st = lit (1 / 10)"
    unfolding numericKe_def epsilon_eq assms(1) lit_tenth .
  have "jmax (Num (4835703278458517 / 2 ^ 82))
      (orElse (parseFloat (Num 0.5)) (Num (4835703278458517 / 2 ^ 82))) = Num 0.5"
    by (rule clamp_Num) simp_all
  then show "numericKa st = Num 0.5"
    unfolding numericKa_def epsilon_eq assms(2) .
qed

lemma rate_Num:
  assumes "1 / 10 ^ 6 \<le> x"
  shows "jmax epsilon (orElse (parseFloat (Num x)) epsilon) = Num x"
proof -
  have "(4835703278458517 / 2 ^ 82 :: real) \<le> 1 / 10 ^ 6"
    by simp
  then have "(4835703278458517 / 2 ^ 82 :: real) \<le> x"
    using assms by linarith
  then show ?thesis
    unfolding epsilon_eq by (intro clamp_Num) simp_all
qed

lemma double_le_plus:
  assumes "isDouble a" and "js_lt (Num 0) a" and "0 < c"
  shows "js_le a (jadd a (Num c))"
proof (cases a)
  case (Num x)
  then have x: "0 < x" "rnd x = Num x"
    using assms by simp_all
  have "js_le (rnd x) (rnd (x + c))"
    using assms(3) by (intro rnd_mono) simp
  moreover have "x + c \<noteq> 0"
    using x(1) assms(3) by linarith
  ultimately show ?thesis
    using x(2) by (simp add: Num jadd_Num)
qed (use assms in \<open>simp_all add: jadd_def\<close>)

lemma metrics_peak:
  assumes "data \<noteq> []"
  shows "Tmax (the (calculateMetrics L st data)) = map_option (toFixed 3) (peakTime L st)"
    and "Cmax (the (calculateMetrics L st data)) = map_option (toFixed 3) (peakConc L st)"
    and "calculateMetrics L st data \<noteq> None"
  using assms by (simp_all add: calculateMetrics_def)

subsection \<open>C1: multi-dose superposition\<close>

text \<open>
  C1.  For every query time, interval and single-dose response function, and every dose
  count \<open>n\<close> other than \<open>Infinity\<close> and not above \<open>2^53\<close>, \<open>calculateMultipleDoses\<close>
  returns, and its result is the sum, accumulated in doubles from \<open>0\<close> in the order of the
  indices, of \<open>single(t - i * tau)\<close> over exactly those dose indices \<open>i\<close> below \<open>n\<close> for which
  the computed product \<open>i * tau\<close> does not exceed \<open>t\<close>; the differences and products are
  the rounded ones.  In particular, for the IV parameters dose 500, volume 50, interval 8,
  3 doses, \<open>ke = 0.1\<close>, the concentration at \<open>t = 16\<close> is
  \<open>((0 + single(16)) + single(8)) + single(0)\<close>.
\<close>

theorem C1_superposition:
  assumes "n \<noteq> PInf" and "\<not> js_lt (Num (2 ^ 53)) n"
  shows "calculateMultipleDoses t single tau n
      = Some (foldl jadd (Num 0)
                (map (\<lambda>i. single (jsub t (jmul (Num (real i)) tau)))
                     (filter (\<lambda>i. js_ge t (jmul (Num (real i)) tau)) [0..<rounds n])))
    \<and> concentrationAt L threeDoseState (Num 16)
      = Some (jadd (jadd (jadd (Num 0)
                (calculateIVBolus L (Num 16) (Num 10) (lit (1 / 10))))
                (calculateIVBolus L (Num 8) (Num 10) (lit (1 / 10))))
                (calculateIVBolus L (Num 0) (Num 10) (lit (1 / 10))))"
proof
  show "calculateMultipleDoses t single tau n
      = Some (foldl jadd (Num 0)
                (map (\<lambda>i. single (jsub t (jmul (Num (real i)) tau)))
                     (filter (\<lambda>i. js_ge t (jmul (Num (real i)) tau)) [0..<rounds n])))"
    using calculateMultipleDoses_run [OF assms] by (simp only: foldl_doseStep)
next
  have n: "nDose L threeDoseState = Num (real 3)"
    by (rule nDose_Num_int) (simp_all add: threeDoseState_def initialState_def)
  have i: "intv threeDoseState = Num 8"
    by (rule intv_Num) (simp_all add: threeDoseState_def initialState_def)
  have k: "numericKe threeDoseState = lit (1 / 10)"
  proof -
    have "jmax (Num (4835703278458517 / 2 ^ 82))
        (orElse (parseFloat (Num (3602879701896397 / 2 ^ 55))) (Num (4835703278458517 / 2 ^ 82)))
        = Num (3602879701896397 / 2 ^ 55)"
      by (rule clamp_Num) simp_all
    then show ?thesis
      unfolding numericKe_def epsilon_eq lit_tenth threeDoseState_def initialState_def by simp
  qed
  have c0: "jdiv (numericDose threeDoseState) (numericV threeDoseState) = Num 10"
  proof -
    have "numericDose threeDoseState = Num 500"
      by (simp add: numericDose_def threeDoseState_def initialState_def orElse_def jmax_def)
    moreover have "numericV threeDoseState = Num 50"
    proof -
      have "jmax (Num (7378697629483821 / 2 ^ 66))
          (orElse (parseFloat (Num 50)) (Num (7378697629483821 / 2 ^ 66))) = Num 50"
        by (rule clamp_Num) simp_all
      then show ?thesis
        unfolding numericV_def lit_1e4 threeDoseState_def initialState_def by simp
    qed
    ultimately show ?thesis
      by (simp add: small_eval)
  qed
  have r: "rounds (Num (real 3)) = 3"
    by (simp add: rounds_def)
  have "calculateMultipleDoses (Num 16) (\<lambda>tau. calculateIVBolus L tau (Num 10) (lit (1 / 10)))
      (Num 8) (Num (real 3))
    = Some (foldl (doseStep (Num 16) (\<lambda>tau. calculateIVBolus L tau (Num 10) (lit (1 / 10)))
              (Num 8)) (Num 0) [0..<rounds (Num (real 3))])"
    by (rule calculateMultipleDoses_run) simp_all
  also have "\<dots> = Some (jadd (jadd (jadd (Num 0)
                (calculateIVBolus L (Num 16) (Num 10) (lit (1 / 10))))
                (calculateIVBolus L (Num 8) (Num 10) (lit (1 / 10))))
                (calculateIVBolus L (Num 0) (Num 10) (lit (1 / 10))))"
    unfolding r upt_3 by (simp add: doseStep_def small_eval)
  finally show "concentrationAt L threeDoseState (Num 16)
      = Some (jadd (jadd (jadd (Num 0)
                (calculateIVBolus L (Num 16) (Num 10) (lit (1 / 10))))
                (calculateIVBolus L (Num 8) (Num 10) (lit (1 / 10))))
                (calculateIVBolus L (Num 0) (Num 10) (lit (1 / 10))))"
    unfolding concentrationAt_def n i k c0 Let_def
    by (simp add: threeDoseState_def initialState_def)
qed

text \<open>
  The theorem at three doses, interval 8 and \<open>t = 16\<close>, for the IV response of the
  reference library: the three indices are summed in the order 0, 1, 2.
\<close>

theorem C1_superposition_witness:
  "Num 3 \<noteq> PInf \<and> \<not> js_lt (Num (2 ^ 53)) (Num 3)
   \<and> calculateMultipleDoses (Num 16)
        (\<lambda>tau. calculateIVBolus refLib tau (Num 10) (lit (1 / 10))) (Num 8) (Num 3)
      = Some (jadd (jadd (jadd (Num 0)
                (calculateIVBolus refLib (Num 16) (Num 10) (lit (1 / 10))))
                (calculateIVBolus refLib (Num 8) (Num 10) (lit (1 / 10))))
                (calculateIVBolus refLib (Num 0) (Num 10) (lit (1 / 10))))"
proof -
  have h: "Num 3 \<noteq> PInf" "\<not> js_lt (Num (2 ^ 53)) (Num 3)"
    by simp_all
  have r: "rounds (Num 3) = 3"
    by (simp add: rounds_def)
  show ?thesis
    using C1_superposition [OF h, of "Num 16"
        "\<lambda>tau. calculateIVBolus refLib tau (Num 10) (lit (1 / 10))" "Num 8" refLib]
    unfolding r upt_3 by (simp add: small_eval)
qed

text \<open>
  The original statement selects the indices by the exact product \<open>i * tau\<close>.  With the
  interval \<open>1.1\<close>, 31 doses and \<open>t = 33\<close>, the exact product \<open>30 * tau\<close> exceeds \<open>33\<close>, so
  only 30 indices qualify, but the computed product is \<open>33\<close> and the code sums 31 terms:
  for the constant response 1 it returns 31.
\<close>

theorem C1_superposition_counterexample:
  "calculateMultipleDoses (Num 33) (\<lambda>tau. Num 1) (lit (11 / 10)) (Num 31) = Some (Num 31)
   \<and> length (filter (\<lambda>i. real i * val (lit (11 / 10)) \<le> 33) [0..<31]) = 30"
proof
  define tau :: real where "tau = 2476979795053773 / 2 ^ 51"
  have l: "lit (11 / 10) = Num tau"
    unfolding tau_def by (rule lit_11)
  have top: "rnd (30 * tau) = Num 33"
    unfolding tau_def by (rule rnd_33)
  have sel: "js_ge (Num 33) (jmul (Num (real i)) (Num tau))" if "i < 31" for i
  proof (cases "i = 0")
    case True
    then show ?thesis
      by (simp add: jmul_Num js_ge_def tau_def)
  next
    case False
    have "real i \<le> 30"
      using that by simp
    then have "real i * tau \<le> 30 * tau"
      by (intro mult_right_mono) (simp_all add: tau_def)
    then have "js_le (rnd (real i * tau)) (rnd (30 * tau))"
      by (rule rnd_mono)
    moreover have "real i * tau \<noteq> 0"
      using False by (simp add: tau_def)
    ultimately show ?thesis
      by (simp add: jmul_Num js_ge_def top)
  qed
  have "filter (\<lambda>i. js_ge (Num 33) (jmul (Num (real i)) (Num tau))) [0..<31] = [0..<31]"
    using sel by (intro filter_True) simp
  moreover have "rounds (Num 31) = 31"
    by (simp add: rounds_def)
  moreover have "map (\<lambda>i. Num 1) [0..<31] = replicate 31 (Num 1 :: jsnum)"
    by (simp add: map_replicate_const)
  moreover have "foldl jadd (Num (real 0)) (replicate 31 (Num 1)) = Num (real (0 + 31))"
    by (rule foldl_ones) simp
  moreover have "calculateMultipleDoses (Num 33) (\<lambda>tau. Num 1) (Num tau) (Num 31)
      = Some (foldl (doseStep (Num 33) (\<lambda>tau. Num 1) (Num tau)) (Num 0) [0..<rounds (Num 31)])"
    by (rule calculateMultipleDoses_run) simp_all
  ultimately show "calculateMultipleDoses (Num 33) (\<lambda>tau. Num 1) (lit (11 / 10)) (Num 31)
      = Some (Num 31)"
    unfolding l by (simp add: foldl_doseStep)
next
  have "filter (\<lambda>i. real i * val (lit (11 / 10)) \<le> 33) [0..<31] = [0..<30]"
  proof -
    have "real i * (2476979795053773 / 2 ^ 51) \<le> 33 \<longleftrightarrow> i < 30" for i :: nat
    proof
      assume a: "real i * (2476979795053773 / 2 ^ 51) \<le> 33"
      show "i < 30"
      proof (rule ccontr)
        assume "\<not> i < 30"
        then have "30 \<le> real i"
          by simp
        then have "30 * (2476979795053773 / 2 ^ 51) \<le> real i * (2476979795053773 / 2 ^ 51)"
          by (intro mult_right_mono) simp_all
        with a show False
          by simp
      qed
    next
      assume "i < 30"
      then have "real i \<le> 29"
        by simp
      then have "real i * (2476979795053773 / 2 ^ 51) \<le> 29 * (2476979795053773 / 2 ^ 51)"
        by (intro mult_right_mono) simp_all
      then show "real i * (2476979795053773 / 2 ^ 51) \<le> 33"
        by simp
    qed
    then have "filter (\<lambda>i. real i * val (lit (11 / 10)) \<le> 33) [0..<31]
        = filter (\<lambda>i. i < 30) [0..<31]"
      unfolding lit_11 val.simps by simp
    also have "\<dots> = [0..<30]"
      by (simp add: upt_rec [of _ 31] upt_rec [of _ 30] cong: filter_cong)
    finally show ?thesis .
  qed
  then show "length (filter (\<lambda>i. real i * val (lit (11 / 10)) \<le> 33) [0..<31]) = 30"
    by simp
qed

subsection \<open>C2: the oral single-dose formula\<close>

text \<open>
  C2.  For all arguments, the single-dose oral concentration is the limiting form
  \<open>(F * D * ka / V) * t * exp(-ka * t)\<close> when the computed \<open>|ka - ke|\<close> is below the double
  \<open>1e-6\<close>, and the closed form \<open>(F * D * ka) / (V * (ka - ke)) * (exp(-ke * t) - exp(-ka * t))\<close>
  otherwise, every operation being the rounded one.  When the closed form is taken and
  the computed difference \<open>ka - ke\<close> is a number, its magnitude is at least the double
  \<open>1e-6\<close>, and for a volume of at least the double \<open>0.0001\<close> the divisor
  \<open>V * (ka - ke)\<close> is neither a zero nor \<open>NaN\<close>.  For the clamped rate constants of a state
  the difference is \<open>NaN\<close> exactly when both are \<open>Infinity\<close>.
\<close>

theorem C2_oral_single_dose:
  "calculateOralDose L t D V kaVal keVal F
     = (if js_lt (jabs (jsub kaVal keVal)) (lit (1 / 10 ^ 6))
          then jmul (jmul (jdiv (jmul (jmul F D) kaVal) V) t) (Mexp L (jmul (jneg kaVal) t))
        else jmul (jdiv (jmul (jmul F D) kaVal) (jmul V (jsub kaVal keVal)))
                  (jsub (Mexp L (jmul (jneg keVal) t)) (Mexp L (jmul (jneg kaVal) t))))
   \<and> (\<not> js_lt (jabs (jsub kaVal keVal)) (lit (1 / 10 ^ 6)) \<and> jsub kaVal keVal \<noteq> NaN
        \<longrightarrow> js_le (lit (1 / 10 ^ 6)) (jabs (jsub kaVal keVal))
            \<and> (js_le (lit (1 / 10 ^ 4)) V
                  \<longrightarrow> \<not> isZero (jmul V (jsub kaVal keVal))
                      \<and> jmul V (jsub kaVal keVal) \<noteq> NaN))
   \<and> (jsub (numericKa st) (numericKe st) = NaN
        \<longleftrightarrow> numericKa st = PInf \<and> numericKe st = PInf)"
proof (intro conjI impI)
  show "calculateOralDose L t D V kaVal keVal F
     = (if js_lt (jabs (jsub kaVal keVal)) (lit (1 / 10 ^ 6))
          then jmul (jmul (jdiv (jmul (jmul F D) kaVal) V) t) (Mexp L (jmul (jneg kaVal) t))
        else jmul (jdiv (jmul (jmul F D) kaVal) (jmul V (jsub kaVal keVal)))
                  (jsub (Mexp L (jmul (jneg keVal) t)) (Mexp L (jmul (jneg kaVal) t))))"
    by (simp only: calculateOralDose_def Let_def)
next
  assume a: "\<not> js_lt (jabs (jsub kaVal keVal)) (lit (1 / 10 ^ 6)) \<and> jsub kaVal keVal \<noteq> NaN"
  have "jabs (jsub kaVal keVal) \<noteq> NaN"
    using a by (cases "jsub kaVal keVal") simp_all
  moreover have "lit (1 / 10 ^ 6) \<noteq> NaN"
    by (simp add: lit_def)
  ultimately show le: "js_le (lit (1 / 10 ^ 6)) (jabs (jsub kaVal keVal))"
    using a by (simp add: js_le_def)
  assume "js_le (lit (1 / 10 ^ 4)) V"
  then show "\<not> isZero (jmul V (jsub kaVal keVal))" "jmul V (jsub kaVal keVal) \<noteq> NaN"
    using divisor_nonzero [OF _ le] by simp_all
next
  show "jsub (numericKa st) (numericKe st) = NaN
        \<longleftrightarrow> numericKa st = PInf \<and> numericKe st = PInf"
    by (rule jsub_NaN_iff) (rule numericKa_bounds numericKe_bounds)+
qed

text \<open>
  The theorem at \<open>ka = 0.5\<close>, \<open>ke = 0.1\<close>, \<open>V = 50\<close>: the computed difference is the double
  \<open>0.4\<close>, the closed form is taken and the divisor is not a zero.
\<close>

theorem C2_oral_single_dose_witness:
  "\<not> js_lt (jabs (jsub (Num 0.5) (lit (1 / 10)))) (lit (1 / 10 ^ 6))
   \<and> jsub (Num 0.5) (lit (1 / 10)) = Num (3602879701896397 / 2 ^ 53)
   \<and> js_le (lit (1 / 10 ^ 4)) (Num 50)
   \<and> js_le (lit (1 / 10 ^ 6)) (jabs (jsub (Num 0.5) (lit (1 / 10))))
   \<and> \<not> isZero (jmul (Num 50) (jsub (Num 0.5) (lit (1 / 10))))
   \<and> jmul (Num 50) (jsub (Num 0.5) (lit (1 / 10))) \<noteq> NaN"
proof -
  have d: "jsub (Num 0.5) (lit (1 / 10)) = Num (3602879701896397 / 2 ^ 53)"
    unfolding lit_tenth jsub_Num using rnd_04 by simp
  have h1: "\<not> js_lt (jabs (jsub (Num 0.5) (lit (1 / 10)))) (lit (1 / 10 ^ 6))"
    unfolding d lit_1e6 by simp
  have h2: "jsub (Num 0.5) (lit (1 / 10)) \<noteq> NaN"
    unfolding d by simp
  have h3: "js_le (lit (1 / 10 ^ 4)) (Num 50)"
    unfolding lit_1e4 by simp
  show ?thesis
    using C2_oral_single_dose [of refLib "Num 1" "Num 500" "Num 50" "Num 0.5" "lit (1 / 10)"
        "Num 1" initialState] h1 h2 h3 d
    by simp
qed

text \<open>
  The original statement compares the exact \<open>|ka - ke|\<close> with \<open>10^-6\<close>.  For the two doubles
  \<open>closeKa\<close> and \<open>closeKe\<close> (\<open>2.3340869303806757e-06\<close> and \<open>1.3340869303806758e-06\<close>) the
  exact difference is below \<open>10^-6\<close>, and the code takes the closed form and divides.
\<close>

theorem C2_oral_single_dose_counterexample:
  "\<bar>closeKa - closeKe\<bar> < 1 / 10 ^ 6
   \<and> calculateOralDose refLib (Num 1) (Num 500) (Num 50) (Num closeKa) (Num closeKe) (Num 1)
      = jmul (jdiv (jmul (jmul (Num 1) (Num 500)) (Num closeKa))
                   (jmul (Num 50) (jsub (Num closeKa) (Num closeKe))))
             (jsub (Mexp refLib (jmul (jneg (Num closeKe)) (Num 1)))
                   (Mexp refLib (jmul (jneg (Num closeKa)) (Num 1))))"
proof -
  have "jsub (Num closeKa) (Num closeKe) = Num (4722366482869645 / 2 ^ 72)"
    unfolding closeKa_def closeKe_def jsub_Num using rnd_c2_diff by simp
  then have "\<not> js_lt (jabs (jsub (Num closeKa) (Num closeKe))) (lit (1 / 10 ^ 6))"
    unfolding lit_1e6 by simp
  then have "calculateOralDose refLib (Num 1) (Num 500) (Num 50) (Num closeKa) (Num closeKe) (Num 1)
      = jmul (jdiv (jmul (jmul (Num 1) (Num 500)) (Num closeKa))
                   (jmul (Num 50) (jsub (Num closeKa) (Num closeKe))))
             (jsub (Mexp refLib (jmul (jneg (Num closeKe)) (Num 1)))
                   (Mexp refLib (jmul (jneg (Num closeKa)) (Num 1))))"
    by (simp only: calculateOralDose_def Let_def if_False)
  moreover have "\<bar>closeKa - closeKe\<bar> < 1 / 10 ^ 6"
    by (simp add: closeKa_def closeKe_def)
  ultimately show ?thesis
    by simp
qed

section \<open>The claims\<close>

subsection \<open>C3: defensive clamping\<close>

text \<open>
  C3.  After the defensive normalization step, for every raw input (any double, the
  infinities and \<open>NaN\<close> included) and every library, the dose count is at least 1, the
  dosing interval, the volume and the two rate constants are at least their floors and
  strictly positive, the dose is at least 0 and the bioavailability lies in \<open>[0, 1]\<close>.
  The clamping does not cover the therapeutic band bounds: every sample, of any time and
  concentration, and so every sample that \<open>simulatePK\<close> returns, carries the raw state
  values of the two bounds, and its range flag is computed against these raw values.
\<close>

theorem C3_clamping:
  "js_le (Num 1) (nDose L st)
   \<and> js_le (lit (1 / 10)) (intv st) \<and> js_le (Num 0.1) (intv st) \<and> js_lt (Num 0) (intv st)
   \<and> js_le (Num 0) (numericDose st)
   \<and> js_le (lit (1 / 10 ^ 4)) (numericV st) \<and> js_le (Num 0.0001) (numericV st)
   \<and> js_lt (Num 0) (numericV st)
   \<and> js_le epsilon (numericKe st) \<and> js_le (Num (1 / 10 ^ 9)) (numericKe st)
   \<and> js_lt (Num 0) (numericKe st)
   \<and> js_le epsilon (numericKa st) \<and> js_le (Num (1 / 10 ^ 9)) (numericKa st)
   \<and> js_lt (Num 0) (numericKa st)
   \<and> js_le (Num 0) (numericF st) \<and> js_le (numericF st) (Num 1)
   \<and> (\<forall>ss. simulatePK L st = Some ss \<longrightarrow>
        (\<forall>s \<in> set ss.
           s_therapeuticMin s = therapeuticMin st \<and> s_therapeuticMax s = therapeuticMax st
           \<and> inRange s = (js_ge (concentration s) (therapeuticMin st)
                           \<and> js_le (concentration s) (therapeuticMax st))))"
proof -
  have n: "js_le (Num 1) (nDose L st)"
    using nDose_Num [of L st] by auto
  have samples: "\<forall>ss. simulatePK L st = Some ss \<longrightarrow>
        (\<forall>s \<in> set ss.
           s_therapeuticMin s = therapeuticMin st \<and> s_therapeuticMax s = therapeuticMax st
           \<and> inRange s = (js_ge (concentration s) (therapeuticMin st)
                           \<and> js_le (concentration s) (therapeuticMax st)))"
  proof (intro allI impI ballI)
    fix ss s
    assume "simulatePK L st = Some ss" and "s \<in> set ss"
    then obtain t c where "s = mkSample st t c"
      using simulatePK_samples by blast
    then show "s_therapeuticMin s = therapeuticMin st \<and> s_therapeuticMax s = therapeuticMax st
           \<and> inRange s = (js_ge (concentration s) (therapeuticMin st)
                           \<and> js_le (concentration s) (therapeuticMax st))"
      by simp
  qed
  show ?thesis
    using n intv_bounds(1,2,3) [of st] numericDose_bounds(1) [of st]
      numericV_bounds(1,2,3) [of st] numericKe_bounds(1,2,3) [of st]
      numericKa_bounds(1,2,3) [of st] numericF_bounds(1,2) [of st] samples
    by (intro conjI)
qed

text \<open>
  The theorem at the initial state with a dose count that is not a number: the seven
  parameters are clamped, the simulation returns its 129 samples, and the first of them
  carries the band \<open>5\<close>, \<open>15\<close>.
\<close>

theorem C3_clamping_witness:
  "js_le (Num 1) (nDose refLib (initialState \<lparr> numberOfDoses := NaN \<rparr>))
   \<and> js_lt (Num 0) (intv (initialState \<lparr> numberOfDoses := NaN \<rparr>))
   \<and> js_lt (Num 0) (numericV (initialState \<lparr> numberOfDoses := NaN \<rparr>))
   \<and> js_lt (Num 0) (numericKe (initialState \<lparr> numberOfDoses := NaN \<rparr>))
   \<and> js_lt (Num 0) (numericKa (initialState \<lparr> numberOfDoses := NaN \<rparr>))
   \<and> js_le (numericF (initialState \<lparr> numberOfDoses := NaN \<rparr>)) (Num 1)
   \<and> simulatePK refLib (initialState \<lparr> numberOfDoses := NaN \<rparr>) \<noteq> None
   \<and> length (the (simulatePK refLib (initialState \<lparr> numberOfDoses := NaN \<rparr>))) = 129
   \<and> s_therapeuticMin (hd (the (simulatePK refLib (initialState \<lparr> numberOfDoses := NaN \<rparr>))))
       = Num 5
   \<and> s_therapeuticMax (hd (the (simulatePK refLib (initialState \<lparr> numberOfDoses := NaN \<rparr>))))
       = Num 15
   \<and> inRange (hd (the (simulatePK refLib (initialState \<lparr> numberOfDoses := NaN \<rparr>))))
       = (js_ge (concentration
                   (hd (the (simulatePK refLib (initialState \<lparr> numberOfDoses := NaN \<rparr>)))))
                (Num 5)
          \<and> js_le (concentration
                      (hd (the (simulatePK refLib (initialState \<lparr> numberOfDoses := NaN \<rparr>)))))
                   (Num 15))"
proof -
  define st where "st = initialState \<lparr> numberOfDoses := NaN \<rparr>"
  define ss where "ss = map (\<lambda>j. the (sampleAt refLib st (Num (real j / 4)))) [0..<129]"
  have run: "simulatePK refLib st = Some ss"
    unfolding ss_def st_def by (rule default_run) (simp_all add: initial_params)
  have len: "length ss = 129"
    by (simp add: ss_def)
  then have "ss \<noteq> []"
    by auto
  then have mem: "hd ss \<in> set ss"
    by simp
  have band: "therapeuticMin st = Num 5" "therapeuticMax st = Num 15"
    by (simp_all add: st_def initialState_def)
  show ?thesis
    using C3_clamping [of refLib st] run len mem band
    unfolding st_def [symmetric] by auto
qed

text \<open>
  The original statement includes the therapeutic band bounds among the clamped fields.
  With the lower bound \<open>NaN\<close> and the upper bound \<open>-5\<close> in the state, the simulation
  returns, and its first sample carries exactly these two values and is flagged out of
  range.
\<close>

theorem C3_clamping_counterexample:
  "simulatePK refLib badBandState \<noteq> None
   \<and> s_therapeuticMin (hd (the (simulatePK refLib badBandState))) = NaN
   \<and> s_therapeuticMax (hd (the (simulatePK refLib badBandState))) = Num (- 5)
   \<and> \<not> inRange (hd (the (simulatePK refLib badBandState)))"
proof -
  define ss where
    "ss = map (\<lambda>j. the (sampleAt refLib badBandState (Num (real j / 4)))) [0..<129]"
  have n: "nDose refLib badBandState = Num 1"
    by (simp add: badBandState_def initial_params)
  have run: "simulatePK refLib badBandState = Some ss"
    unfolding ss_def by (rule default_run) (simp_all add: badBandState_def initial_params)
  have "hd ss = the (sampleAt refLib badBandState (Num (real 0 / 4)))"
    unfolding ss_def by (simp add: upt_conv_Cons)
  also have "\<dots> = mkSample badBandState (Num (real 0 / 4))
      (the (concentrationAt refLib badBandState (Num (real 0 / 4))))"
    by (rule sampleAt_mk) (simp add: n)
  finally have "hd ss = mkSample badBandState (Num (real 0 / 4))
      (the (concentrationAt refLib badBandState (Num (real 0 / 4))))" .
  moreover have "therapeuticMin badBandState = NaN" "therapeuticMax badBandState = Num (- 5)"
    by (simp_all add: badBandState_def)
  ultimately show ?thesis
    using run by (simp add: js_ge_def)
qed

subsection \<open>C4: the sample sequence\<close>




subsection \<open>C6: peak time and peak concentration\<close>

text \<open>
  C6.  Whenever there is data, the metrics are returned, and peak time and peak
  concentration are reported as not applicable whenever the route is IV, and for the
  oral route whenever \<open>ka\<close> does not exceed the computed \<open>ke + 1e-12\<close>, in particular
  whenever \<open>ka \<le> ke\<close>; otherwise (oral route with \<open>ka > ke + 1e-12\<close> as computed) the peak
  time is the three-decimal print of the computed \<open>log(ka / ke) / (ka - ke)\<close> and the peak
  concentration is the three-decimal print of the single-dose oral concentration
  evaluated at that computed time.  For \<open>ka = 0.5\<close>, \<open>ke = 0.1\<close> the computed quotient is \<open>5\<close>
  and the computed difference the double \<open>0.4\<close>, so the peak time is the print of
  \<open>Math.log(5) / 0.4\<close>; it reads \<open>4.024\<close> for every library whose \<open>Math.log(5)\<close> lies between
  \<open>1.60943\<close> and \<open>1.60944\<close>.
\<close>

theorem C6_peak:
  assumes "data \<noteq> []"
  shows "\<exists>m. calculateMetrics L st data = Some m
    \<and> (administrationType st = Iv \<longrightarrow> Tmax m = None \<and> Cmax m = None)
    \<and> (administrationType st = Oral
          \<and> \<not> js_gt (numericKa st) (jadd (numericKe st) (lit (1 / 10 ^ 12)))
        \<longrightarrow> Tmax m = None \<and> Cmax m = None)
    \<and> (administrationType st = Oral \<and> isDouble (numericKe st)
          \<and> js_le (numericKa st) (numericKe st)
        \<longrightarrow> Tmax m = None \<and> Cmax m = None)
    \<and> (administrationType st = Oral
          \<and> js_gt (numericKa st) (jadd (numericKe st) (lit (1 / 10 ^ 12)))
        \<longrightarrow> Tmax m = Some (toFixed 3
                (jdiv (Mlog L (jdiv (numericKa st) (numericKe st)))
                      (jsub (numericKa st) (numericKe st))))
            \<and> Cmax m = Some (toFixed 3
                (calculateOralDose L
                   (jdiv (Mlog L (jdiv (numericKa st) (numericKe st)))
                         (jsub (numericKa st) (numericKe st)))
                   (numericDose st) (numericV st) (numericKa st) (numericKe st)
                   (numericF st))))
    \<and> (\<forall>m'. calculateMetrics L oralState data = Some m'
          \<longrightarrow> Tmax m' = Some (toFixed 3 (jdiv (Mlog L (Num 5)) (lit (2 / 5))))
              \<and> (\<forall>l. Mlog L (Num 5) = Num l \<and> 160943 / 100000 \<le> l \<and> l \<le> 160944 / 100000
                    \<longrightarrow> Tmax m' = Some (Decimal False 4024 3)))"
proof -
  define m where "m = the (calculateMetrics L st data)"
  have ret: "calculateMetrics L st data = Some m"
    using metrics_peak(3) [OF assms, of L st] by (simp add: m_def)
  have T: "Tmax m = map_option (toFixed 3) (peakTime L st)"
    and C: "Cmax m = map_option (toFixed 3) (peakConc L st)"
    unfolding m_def by (rule metrics_peak [OF assms])+
  have iv: "administrationType st = Iv \<longrightarrow> Tmax m = None \<and> Cmax m = None"
    by (simp add: T C peakConc_def peakTime_def)
  have guard: "administrationType st = Oral
          \<and> \<not> js_gt (numericKa st) (jadd (numericKe st) (lit (1 / 10 ^ 12)))
        \<longrightarrow> Tmax m = None \<and> Cmax m = None"
    by (simp add: T C peakConc_def peakTime_def)
  have le: "administrationType st = Oral \<and> isDouble (numericKe st)
          \<and> js_le (numericKa st) (numericKe st)
        \<longrightarrow> Tmax m = None \<and> Cmax m = None"
  proof
    assume a: "administrationType st = Oral \<and> isDouble (numericKe st)
          \<and> js_le (numericKa st) (numericKe st)"
    have "js_le (numericKe st) (jadd (numericKe st) (Num (4951760157141521 / 2 ^ 92)))"
      using a numericKe_bounds(2) [of st] by (intro double_le_plus) simp_all
    then have "js_le (numericKe st) (jadd (numericKe st) (lit (1 / 10 ^ 12)))"
      by (simp only: lit_1e12)
    with a have "js_le (numericKa st) (jadd (numericKe st) (lit (1 / 10 ^ 12)))"
      using js_le_trans by blast
    then have "\<not> js_gt (numericKa st) (jadd (numericKe st) (lit (1 / 10 ^ 12)))"
      by (simp add: js_gt_def js_le_def)
    then show "Tmax m = None \<and> Cmax m = None"
      using guard a by blast
  qed
  have oral: "administrationType st = Oral
          \<and> js_gt (numericKa st) (jadd (numericKe st) (lit (1 / 10 ^ 12)))
        \<longrightarrow> Tmax m = Some (toFixed 3
                (jdiv (Mlog L (jdiv (numericKa st) (numericKe st)))
                      (jsub (numericKa st) (numericKe st))))
            \<and> Cmax m = Some (toFixed 3
                (calculateOralDose L
                   (jdiv (Mlog L (jdiv (numericKa st) (numericKe st)))
                         (jsub (numericKa st) (numericKe st)))
                   (numericDose st) (numericV st) (numericKa st) (numericKe st)
                   (numericF st)))"
    by (simp add: T C peakConc_def peakTime_def)
  have ex: "\<forall>m'. calculateMetrics L oralState data = Some m'
          \<longrightarrow> Tmax m' = Some (toFixed 3 (jdiv (Mlog L (Num 5)) (lit (2 / 5))))
              \<and> (\<forall>l. Mlog L (Num 5) = Num l \<and> 160943 / 100000 \<le> l \<and> l \<le> 160944 / 100000
                    \<longrightarrow> Tmax m' = Some (Decimal False 4024 3))"
  proof (intro allI impI)
    fix m'
    assume m': "calculateMetrics L oralState data = Some m'"
    have k: "numericKe oralState = lit (1 / 10)" "numericKa oralState = Num 0.5"
      by (rule initial_rates; simp add: oralState_def initialState_def)+
    have quot: "jdiv (numericKa oralState) (numericKe oralState) = Num 5"
      unfolding k lit_tenth using rnd_5 by (simp add: jdiv_def)
    have diff: "jsub (numericKa oralState) (numericKe oralState) = lit (2 / 5)"
      unfolding k lit_tenth lit_04 jsub_Num using rnd_04 by simp
    have "js_le (rnd (3602879701896397 / 2 ^ 55 + 4951760157141521 / 2 ^ 92)) (rnd (1 / 4))"
      by (rule rnd_mono) simp
    moreover have "rnd (1 / 4) = Num (1 / 4)"
      using rnd_quarter [of 1] by simp
    ultimately have "js_lt (jadd (numericKe oralState) (lit (1 / 10 ^ 12))) (Num 0.5)"
      unfolding k lit_tenth lit_1e12 jadd_Num
      by (cases "rnd (3602879701896397 / 2 ^ 55 + 4951760157141521 / 2 ^ 92)") simp_all
    moreover have "administrationType oralState = Oral"
      by (simp add: oralState_def)
    ultimately have "peakTime L oralState = Some (jdiv (Mlog L (Num 5)) (lit (2 / 5)))"
      by (simp add: peakTime_def quot diff js_gt_def) (simp add: k)
    moreover have "Tmax m' = map_option (toFixed 3) (peakTime L oralState)"
      using metrics_peak(1) [OF assms, of L oralState] m' by simp
    ultimately have t: "Tmax m' = Some (toFixed 3 (jdiv (Mlog L (Num 5)) (lit (2 / 5))))"
      by simp
    show "Tmax m' = Some (toFixed 3 (jdiv (Mlog L (Num 5)) (lit (2 / 5))))
        \<and> (\<forall>l. Mlog L (Num 5) = Num l \<and> 160943 / 100000 \<le> l \<and> l \<le> 160944 / 100000
              \<longrightarrow> Tmax m' = Some (Decimal False 4024 3))"
      using t Tmax_digits by (auto simp only: lit_04)
  qed
  from ret iv guard le oral ex show ?thesis
    by blast
qed

text \<open>
  The theorem at the oral route with the initial rate constants and the reference
  library: the guard holds and the peak time reads \<open>4.024\<close>.
\<close>

theorem C6_peak_witness:
  "oneSample \<noteq> [] \<and> administrationType oralState = Oral
   \<and> js_gt (numericKa oralState) (jadd (numericKe oralState) (lit (1 / 10 ^ 12)))
   \<and> calculateMetrics refLib oralState oneSample \<noteq> None
   \<and> Tmax (the (calculateMetrics refLib oralState oneSample)) = Some (Decimal False 4024 3)
   \<and> Cmax (the (calculateMetrics refLib oralState oneSample)) \<noteq> None"
proof -
  have d: "oneSample \<noteq> []"
    by (simp add: oneSample_def)
  obtain l where l: "Mlog refLib (Num 5) = Num l" "160943 / 100000 \<le> l" "l \<le> 160944 / 100000"
    using refLib_log5 by blast
  have o: "administrationType oralState = Oral"
    by (simp add: oralState_def)
  from C6_peak [OF d, of refLib oralState] obtain m where
    m: "calculateMetrics refLib oralState oneSample = Some m"
      "\<not> js_gt (numericKa oralState) (jadd (numericKe oralState) (lit (1 / 10 ^ 12)))
        \<longrightarrow> Tmax m = None"
      "js_gt (numericKa oralState) (jadd (numericKe oralState) (lit (1 / 10 ^ 12)))
        \<longrightarrow> Cmax m \<noteq> None"
      "Tmax m = Some (Decimal False 4024 3)"
    using o l by auto
  show ?thesis
    using d o m by auto
qed

text \<open>
  The original statement reports a peak for the oral route whenever \<open>ka > ke\<close>.  With
  \<open>ke = 1\<close> and \<open>ka = 1 + 2^-52\<close>, the next double, \<open>ka\<close> exceeds \<open>ke\<close> but not the computed
  \<open>ke + 1e-12\<close>, and both fields are reported as not applicable.
\<close>

theorem C6_peak_counterexample:
  "administrationType marginState = Oral
   \<and> js_gt (numericKa marginState) (numericKe marginState)
   \<and> Tmax (the (calculateMetrics refLib marginState oneSample)) = None
   \<and> Cmax (the (calculateMetrics refLib marginState oneSample)) = None"
proof -
  have d: "oneSample \<noteq> []"
    by (simp add: oneSample_def)
  have ke: "numericKe marginState = Num 1"
    unfolding numericKe_def using rate_Num [of 1] by (simp add: marginState_def)
  have ka: "numericKa marginState = Num (1 + 1 / 2 ^ 52)"
    unfolding numericKa_def using rate_Num [of "1 + 1 / 2 ^ 52"] by (simp add: marginState_def)
  have "jadd (Num 1) (lit (1 / 10 ^ 12)) = Num (562949953421875 / 2 ^ 49)"
    unfolding lit_1e12 jadd_Num using rnd_1_d12 by simp
  then have "\<not> js_gt (numericKa marginState) (jadd (numericKe marginState) (lit (1 / 10 ^ 12)))"
    unfolding ke ka by (simp add: js_gt_def)
  then have "peakTime refLib marginState = None"
    by (simp add: peakTime_def)
  moreover have "administrationType marginState = Oral"
    by (simp add: marginState_def)
  moreover have "js_gt (numericKa marginState) (numericKe marginState)"
    unfolding ke ka by (simp add: js_gt_def)
  ultimately show ?thesis
    using metrics_peak(1,2) [OF d, of refLib marginState]
    by (simp add: peakConc_def)
qed

end
